(* ===== verification/Gguf.thy ===== *)
theory Gguf
  imports Go_Prelude "HOL-Library.Multiset"
begin

text \<open>
  The GGUF header reader of \<open>src/internal/gguf/gguf.go\<close> and the header writer of
  \<open>src/internal/gguf/fixture.go\<close>. The reader is modelled on a byte source that holds the bytes
  still to come and says how it ends: with \<open>io.EOF\<close> or with another I/O error. Error values keep
  the sentinel that \<open>errors.Is\<close> finds in them, not their message.
\<close>

section \<open>The byte source: io.ReadFull and binary.Read\<close>

datatype io_err = EOF | ErrUnexpectedEOF | ErrRead

record reader =
  pending :: string   \<comment> \<open>the bytes still to come\<close>
  broken :: bool      \<comment> \<open>after them, \<open>Read\<close> fails with an error other than \<open>io.EOF\<close>\<close>

definition ReadFull :: "nat \<Rightarrow> reader \<Rightarrow> (io_err, string \<times> reader) res" where
  "ReadFull n r =
     (if n \<le> length (pending r) then Inr (take n (pending r), r\<lparr>pending := drop n (pending r)\<rparr>)
      else Inl (if broken r then ErrRead else if pending r = [] then EOF else ErrUnexpectedEOF))"

text \<open>Little-endian numbers.\<close>

fun le_nat :: "string \<Rightarrow> nat" where
  "le_nat [] = 0"
| "le_nat (c # cs) = of_char c + 256 * le_nat cs"

fun le_bytes :: "nat \<Rightarrow> nat \<Rightarrow> string" where
  "le_bytes 0 v = []"
| "le_bytes (Suc k) v = char_of v # le_bytes k (v div 256)"

definition read_le :: "nat \<Rightarrow> reader \<Rightarrow> (io_err, 'a::len word \<times> reader) res" where
  "read_le k r = res_bind (ReadFull k r) (\<lambda>(bs, r'). Inr (word_of_nat (le_nat bs), r'))"

section \<open>Values, errors, header\<close>

datatype gguf_err =
    ErrInvalidMagic
  | ErrUnsupportedVersion u32
  | ErrHeaderTooLarge
  | ErrCorruptHeader
  | ErrIO io_err

text \<open>A decoded value; signed integers and floats are kept as their bits.\<close>

datatype gval =
    VUint8 u8 | VInt8 u8 | VUint16 u16 | VInt16 u16 | VUint32 u32 | VInt32 u32
  | VFloat32 u32 | VBool bool | VString string | VArray "gval list"
  | VUint64 u64 | VInt64 u64 | VFloat64 u64

definition Magic :: string where
  "Magic = ''GGUF''"

definition TypeUint8 :: u32 where "TypeUint8 = 0"
definition TypeInt8 :: u32 where "TypeInt8 = 1"
definition TypeUint16 :: u32 where "TypeUint16 = 2"
definition TypeInt16 :: u32 where "TypeInt16 = 3"
definition TypeUint32 :: u32 where "TypeUint32 = 4"
definition TypeInt32 :: u32 where "TypeInt32 = 5"
definition TypeFloat32 :: u32 where "TypeFloat32 = 6"
definition TypeBool :: u32 where "TypeBool = 7"
definition TypeString :: u32 where "TypeString = 8"
definition TypeArray :: u32 where "TypeArray = 9"
definition TypeUint64 :: u32 where "TypeUint64 = 10"
definition TypeInt64 :: u32 where "TypeInt64 = 11"
definition TypeFloat64 :: u32 where "TypeFloat64 = 12"

lemmas gguf_type_defs =
  TypeUint8_def TypeInt8_def TypeUint16_def TypeInt16_def TypeUint32_def TypeInt32_def
  TypeFloat32_def TypeBool_def TypeString_def TypeArray_def TypeUint64_def TypeInt64_def
  TypeFloat64_def

definition maxStringLength :: nat where "maxStringLength = 16 * 1024 * 1024"
definition maxArrayLength :: nat where "maxArrayLength = 1000000"
definition maxKVCount :: nat where "maxKVCount = 100000"
definition maxArrayDepth :: nat where "maxArrayDepth = 8"

definition FileTypeTable :: "(u32 \<times> string) list" where
  "FileTypeTable =
    [(0, ''F32''), (1, ''F16''), (2, ''Q4_0''), (3, ''Q4_1''), (7, ''Q8_0''), (8, ''Q5_0''),
     (9, ''Q5_1''), (10, ''Q2_K''), (11, ''Q3_K_S''), (12, ''Q3_K_M''), (13, ''Q3_K_L''),
     (14, ''Q4_K_S''), (15, ''Q4_K_M''), (16, ''Q5_K_S''), (17, ''Q5_K_M''), (18, ''Q6_K''),
     (19, ''IQ2_XXS''), (20, ''IQ2_XS''), (21, ''Q2_K_S''), (22, ''IQ3_XS''), (23, ''IQ3_S''),
     (24, ''IQ2_S''), (25, ''IQ2_M''), (26, ''IQ1_S''), (27, ''IQ4_NL''), (28, ''IQ3_M''),
     (29, ''IQ4_XS''), (30, ''IQ1_M''), (31, ''BF16''), (32, ''Q4_0_4_4''), (33, ''Q4_0_4_8''),
     (34, ''Q4_0_8_8''), (35, ''TQ1_0''), (36, ''TQ2_0'')]"

definition FileTypeNames :: "u32 \<rightharpoonup> string" where
  "FileTypeNames = map_of FileTypeTable"

text \<open>
  The Go loop ranges over the map in an unspecified order; \<open>entries\<close> is that order.
\<close>

definition FileTypeNameToType :: "(u32 \<times> string) list \<Rightarrow> string \<Rightarrow> u32 \<times> bool" where
  "FileTypeNameToType entries name =
     (case find (\<lambda>(code, strName). ToUpper strName = ToUpper name) entries of
        Some (code, _) \<Rightarrow> (code, True)
      | None \<Rightarrow> (0, False))"

record Metadata =
  Architecture :: string
  ContextLength :: u64
  BlockCount :: u64
  Quantization :: string

record Header =
  Version :: u32
  TensorCount :: u64
  KVCount :: u64
  Meta :: Metadata
  KV :: "string \<rightharpoonup> gval"

section \<open>Reading\<close>

definition read_len :: "bool \<Rightarrow> reader \<Rightarrow> (io_err, u64 \<times> reader) res" where
  "read_len v1 r =
     (if v1 then res_bind (read_le 4 r) (\<lambda>(l :: u32, r'). Inr (ucast l, r')) else read_le 8 r)"

definition readString :: "reader \<Rightarrow> bool \<Rightarrow> (gguf_err, string \<times> reader) res" where
  "readString r v1 =
     res_bind (map_err ErrIO (read_len v1 r)) (\<lambda>(strLen, r1).
       if unat strLen > maxStringLength then Inl ErrHeaderTooLarge
       else map_err ErrIO (ReadFull (unat strLen) r1))"

definition read_scalar ::
  "nat \<Rightarrow> ('a::len word \<Rightarrow> gval) \<Rightarrow> reader \<Rightarrow> (gguf_err, gval \<times> reader) res" where
  "read_scalar k mk r = map_err ErrIO (res_bind (read_le k r) (\<lambda>(v, r'). Inr (mk v, r')))"

text \<open>
  The element loop: a fixed number of values, each read by \<open>p\<close>; a failing element of any kind
  becomes \<^const>\<open>ErrCorruptHeader\<close>.
\<close>

primrec readElems ::
  "(reader \<Rightarrow> (gguf_err, gval \<times> reader) res) \<Rightarrow> nat \<Rightarrow> reader \<Rightarrow> (gguf_err, gval list \<times> reader) res"
where
  "readElems p 0 r = Inr ([], r)"
| "readElems p (Suc n) r =
     res_bind (map_err (\<lambda>_. ErrCorruptHeader) (p r)) (\<lambda>(v, r1).
       res_bind (readElems p n r1) (\<lambda>(vs, r2). Inr (v # vs, r2)))"

text \<open>
  The array case of \<open>readValue\<close> below the depth limit: element type, element count, elements.
  \<open>elem\<close> reads one element of the given type one level deeper.
\<close>

definition readArray ::
  "(reader \<Rightarrow> u32 \<Rightarrow> (gguf_err, gval \<times> reader) res) \<Rightarrow> bool \<Rightarrow> reader \<Rightarrow> (gguf_err, gval \<times> reader) res"
where
  "readArray elem v1 r =
     res_bind (map_err (\<lambda>_. ErrCorruptHeader) (read_le 4 r)) (\<lambda>(elemType, r1).
     res_bind (map_err (\<lambda>_. ErrCorruptHeader) (read_len v1 r1)) (\<lambda>(count, r2).
       if unat count > maxArrayLength then Inl ErrHeaderTooLarge
       else res_bind (readElems (\<lambda>r'. elem r' elemType) (unat count) r2)
              (\<lambda>(arr, r3). Inr (VArray arr, r3))))"

text \<open>The switch of \<open>readValue\<close>; \<open>array\<close> is its array case.\<close>

definition readSwitch ::
  "(reader \<Rightarrow> (gguf_err, gval \<times> reader) res) \<Rightarrow> reader \<Rightarrow> u32 \<Rightarrow> bool \<Rightarrow> (gguf_err, gval \<times> reader) res"
where
  "readSwitch array r valType v1 =
     (if valType = TypeUint8 then read_scalar 1 VUint8 r
      else if valType = TypeInt8 then read_scalar 1 VInt8 r
      else if valType = TypeUint16 then read_scalar 2 VUint16 r
      else if valType = TypeInt16 then read_scalar 2 VInt16 r
      else if valType = TypeUint32 then read_scalar 4 VUint32 r
      else if valType = TypeInt32 then read_scalar 4 VInt32 r
      else if valType = TypeFloat32 then read_scalar 4 VFloat32 r
      else if valType = TypeBool then read_scalar 1 (\<lambda>v :: u8. VBool (v \<noteq> 0)) r
      else if valType = TypeString then
        res_bind (readString r v1) (\<lambda>(s, r'). Inr (VString s, r'))
      else if valType = TypeArray then array r
      else if valType = TypeUint64 then read_scalar 8 VUint64 r
      else if valType = TypeInt64 then read_scalar 8 VInt64 r
      else if valType = TypeFloat64 then read_scalar 8 VFloat64 r
      else Inl ErrCorruptHeader)"

text \<open>
  \<open>readValue\<close> at nesting depth \<open>depth\<close>, where \<open>left = maxArrayDepth - depth\<close> is the number of
  array levels still allowed: the recursion is on \<open>left\<close>.
\<close>

primrec readValue_left :: "nat \<Rightarrow> reader \<Rightarrow> u32 \<Rightarrow> bool \<Rightarrow> (gguf_err, gval \<times> reader) res" where
  "readValue_left 0 = readSwitch (\<lambda>_. Inl ErrCorruptHeader)"
| "readValue_left (Suc left) = (\<lambda>r valType v1.
     readSwitch (readArray (\<lambda>r' elemType. readValue_left left r' elemType v1) v1) r valType v1)"

definition readValue :: "reader \<Rightarrow> u32 \<Rightarrow> bool \<Rightarrow> nat \<Rightarrow> (gguf_err, gval \<times> reader) res" where
  "readValue r valType v1 depth = readValue_left (maxArrayDepth - depth) r valType v1"

section \<open>Numbers in metadata\<close>

text \<open>
  A binary float given by its bits: \<open>FFin neg m e\<close> is \<open>(-1)^neg * m * 2^e\<close>.
\<close>

datatype ieee = FFin bool nat int | FInf bool | FNaN

definition ieee_of_bits :: "nat \<Rightarrow> nat \<Rightarrow> nat \<Rightarrow> ieee" where
  "ieee_of_bits ebits mbits b =
     (let man = b mod 2 ^ mbits;
          ex = (b div 2 ^ mbits) mod 2 ^ ebits;
          neg = (b div 2 ^ (mbits + ebits) mod 2 = 1);
          bias = 2 ^ (ebits - 1) - 1
      in if ex = 2 ^ ebits - 1 then (if man = 0 then FInf neg else FNaN)
         else if ex = 0 then FFin neg man (1 - int bias - int mbits)
         else FFin neg (2 ^ mbits + man) (int ex - int bias - int mbits))"

text \<open>The integer part of \<open>m * 2^e\<close>, and whether the value is at most \<open>2^64\<close>.\<close>

definition float_trunc :: "nat \<Rightarrow> int \<Rightarrow> nat" where
  "float_trunc m e = (if 0 \<le> e then m * 2 ^ nat e else m div 2 ^ nat (- e))"

definition float_le_2_64 :: "nat \<Rightarrow> int \<Rightarrow> bool" where
  "float_le_2_64 m e = (if 0 \<le> e then m * 2 ^ nat e \<le> 2 ^ 64 else m \<le> 2 ^ 64 * 2 ^ nat (- e))"

text \<open>
  The test \<open>n >= 0 && n <= math.MaxUint64\<close> and the conversion \<open>uint64(n)\<close>. The untyped constant
  is rounded to the float type, that is to \<open>2^64\<close>, so the test lets \<open>2^64\<close> itself pass; Go
  leaves the result of converting it to the implementation, here the argument \<open>ovf\<close>.
\<close>

definition float_to_uint64 :: "u64 \<Rightarrow> ieee \<Rightarrow> u64 \<times> bool" where
  "float_to_uint64 ovf f =
     (case f of
        FFin neg m e \<Rightarrow>
          (if (neg \<longrightarrow> m = 0) \<and> float_le_2_64 m e
           then (if float_trunc m e < 2 ^ 64 then word_of_nat (float_trunc m e) else ovf, True)
           else (0, False))
      | FInf _ \<Rightarrow> (0, False)
      | FNaN \<Rightarrow> (0, False))"

fun toUint64 :: "u64 \<Rightarrow> gval \<Rightarrow> u64 \<times> bool" where
  "toUint64 ovf (VUint64 n) = (n, True)"
| "toUint64 ovf (VUint32 n) = (ucast n, True)"
| "toUint64 ovf (VUint16 n) = (ucast n, True)"
| "toUint64 ovf (VUint8 n) = (ucast n, True)"
| "toUint64 ovf (VInt64 n) = (if 0 \<le> sint n then (n, True) else (0, False))"
| "toUint64 ovf (VInt32 n) = (if 0 \<le> sint n then (scast n, True) else (0, False))"
| "toUint64 ovf (VInt16 n) = (if 0 \<le> sint n then (scast n, True) else (0, False))"
| "toUint64 ovf (VInt8 n) = (if 0 \<le> sint n then (scast n, True) else (0, False))"
| "toUint64 ovf (VFloat64 b) = float_to_uint64 ovf (ieee_of_bits 11 52 (unat b))"
| "toUint64 ovf (VFloat32 b) = float_to_uint64 ovf (ieee_of_bits 8 23 (unat b))"
| "toUint64 ovf (VBool b) = (0, False)"
| "toUint64 ovf (VString s) = (0, False)"
| "toUint64 ovf (VArray vs) = (0, False)"

section \<open>Metadata\<close>

text \<open>The key loops: the number at the first key that holds one, else 0.\<close>

fun first_number :: "u64 \<Rightarrow> (string \<rightharpoonup> gval) \<Rightarrow> string list \<Rightarrow> u64" where
  "first_number ovf kv [] = 0"
| "first_number ovf kv (k # ks) =
     (case kv k of
        None \<Rightarrow> first_number ovf kv ks
      | Some val \<Rightarrow>
          (case toUint64 ovf val of
             (num, True) \<Rightarrow> num
           | (_, False) \<Rightarrow> first_number ovf kv ks))"

definition meta_architecture :: "(string \<rightharpoonup> gval) \<Rightarrow> string" where
  "meta_architecture kv =
     (case kv ''general.architecture'' of Some (VString v) \<Rightarrow> v | _ \<Rightarrow> ''unknown'')"

definition file_type_quant :: "u64 \<Rightarrow> gval \<Rightarrow> string" where
  "file_type_quant ovf val =
     (case toUint64 ovf val of
        (code, True) \<Rightarrow>
          (case FileTypeNames (ucast code) of
             Some name \<Rightarrow> name
           | None \<Rightarrow> ''TYPE_'' @ FormatUint code)
      | (_, False) \<Rightarrow> (case val of VString str \<Rightarrow> str | _ \<Rightarrow> []))"

definition meta_quantization :: "u64 \<Rightarrow> (string \<rightharpoonup> gval) \<Rightarrow> string" where
  "meta_quantization ovf kv =
     (let q = (case kv ''general.file_type'' of Some val \<Rightarrow> file_type_quant ovf val | None \<Rightarrow> [])
      in if q = [] then
           (case kv ''general.quantization'' of Some (VString v) \<Rightarrow> v | _ \<Rightarrow> ''unknown'')
         else q)"

definition extractMetadata :: "u64 \<Rightarrow> (string \<rightharpoonup> gval) \<Rightarrow> Metadata" where
  "extractMetadata ovf kv =
     (let arch = meta_architecture kv
      in \<lparr>Architecture = arch,
          ContextLength = first_number ovf kv
            [arch @ ''.context_length'', ''general.context_length'', ''llm.context_length''],
          BlockCount = first_number ovf kv [arch @ ''.block_count'', ''llm.block_count''],
          Quantization = meta_quantization ovf kv\<rparr>)"

section \<open>ReadHeader\<close>

definition wrap_kv_err :: "gguf_err \<Rightarrow> gguf_err" where
  "wrap_kv_err e = (if e = ErrHeaderTooLarge then ErrHeaderTooLarge else ErrCorruptHeader)"

text \<open>One turn of the key-value loop, and the loop; a later key overwrites an earlier one.\<close>

definition readKV :: "bool \<Rightarrow> reader \<Rightarrow> (gguf_err, (string \<times> gval) \<times> reader) res" where
  "readKV v1 r =
     res_bind (map_err wrap_kv_err (readString r v1)) (\<lambda>(key, r1).
     res_bind (map_err (\<lambda>_. ErrCorruptHeader) (read_le 4 r1)) (\<lambda>(valType, r2).
     res_bind (map_err wrap_kv_err (readValue r2 valType v1 0)) (\<lambda>(val, r3).
       Inr ((key, val), r3))))"

primrec readKVs ::
  "nat \<Rightarrow> bool \<Rightarrow> reader \<Rightarrow> (string \<rightharpoonup> gval) \<Rightarrow> (gguf_err, (string \<rightharpoonup> gval) \<times> reader) res"
where
  "readKVs 0 v1 r kv = Inr (kv, r)"
| "readKVs (Suc n) v1 r kv =
     res_bind (readKV v1 r) (\<lambda>((key, val), r1). readKVs n v1 r1 (kv(key \<mapsto> val)))"

definition readMagic :: "reader \<Rightarrow> (gguf_err, unit \<times> reader) res" where
  "readMagic r =
     res_bind (map_err (\<lambda>e. if e = EOF \<or> e = ErrUnexpectedEOF then ErrInvalidMagic else ErrIO e)
        (ReadFull 4 r)) (\<lambda>(m, r1). if m = Magic then Inr ((), r1) else Inl ErrInvalidMagic)"

definition readVersion :: "reader \<Rightarrow> (gguf_err, u32 \<times> reader) res" where
  "readVersion r =
     res_bind (map_err (\<lambda>_. ErrCorruptHeader) (read_le 4 r)) (\<lambda>(version, r1).
       if version \<noteq> 1 \<and> version \<noteq> 2 \<and> version \<noteq> 3 then Inl (ErrUnsupportedVersion version)
       else Inr (version, r1))"

text \<open>The header, with the byte source as \<open>ReadHeader\<close> leaves it.\<close>

definition ReadHeader :: "u64 \<Rightarrow> reader \<Rightarrow> (gguf_err, Header \<times> reader) res" where
  "ReadHeader ovf r =
     res_bind (readMagic r) (\<lambda>(_, r1).
     res_bind (readVersion r1) (\<lambda>(version, r2).
     res_bind (map_err (\<lambda>_. ErrCorruptHeader) (read_len (version = 1) r2)) (\<lambda>(tensorCount, r3).
     res_bind (map_err (\<lambda>_. ErrCorruptHeader) (read_len (version = 1) r3)) (\<lambda>(kvCount, r4).
       if unat kvCount > maxKVCount then Inl ErrHeaderTooLarge
       else res_bind (readKVs (unat kvCount) (version = 1) r4 Map.empty) (\<lambda>(kv, r5).
         Inr (\<lparr>Version = version, TensorCount = tensorCount, KVCount = kvCount,
               Meta = extractMetadata ovf kv, KV = kv\<rparr>, r5))))))"

section \<open>Writing: the fixture header\<close>

text \<open>
  The dynamic values \<open>CreateTestGGUF\<close> may be given: those the reader can return, Go's \<open>int\<close> and
  \<open>uint\<close>, and anything else, for which \<open>writeValue\<close> panics (\<^const>\<open>None\<close>).
\<close>

datatype goval = GV gval | GInt int | GUint u64 | GOther

record FixtureParams =
  fp_Architecture :: string
  fp_ContextLength :: u64
  fp_Quantization :: string
  fp_ExtraKV :: "string \<rightharpoonup> goval"

definition writeType :: "u32 \<Rightarrow> string" where
  "writeType t = le_bytes 4 (unat t)"

definition writeString :: "string \<Rightarrow> string" where
  "writeString s = le_bytes 8 (length s) @ s"

fun writeValue :: "goval \<Rightarrow> string option" where
  "writeValue (GV (VUint8 v)) = Some (writeType TypeUint8 @ le_bytes 1 (unat v))"
| "writeValue (GV (VInt8 v)) = Some (writeType TypeInt8 @ le_bytes 1 (unat v))"
| "writeValue (GV (VUint16 v)) = Some (writeType TypeUint16 @ le_bytes 2 (unat v))"
| "writeValue (GV (VInt16 v)) = Some (writeType TypeInt16 @ le_bytes 2 (unat v))"
| "writeValue (GV (VUint32 v)) = Some (writeType TypeUint32 @ le_bytes 4 (unat v))"
| "writeValue (GV (VInt32 v)) = Some (writeType TypeInt32 @ le_bytes 4 (unat v))"
| "writeValue (GInt i) = Some (writeType TypeUint32 @ le_bytes 4 (unat (word_of_int i :: u32)))"
| "writeValue (GUint n) = Some (writeType TypeUint64 @ le_bytes 8 (unat n))"
| "writeValue (GV (VFloat32 v)) = Some (writeType TypeFloat32 @ le_bytes 4 (unat v))"
| "writeValue (GV (VBool b)) = Some (writeType TypeBool @ le_bytes 1 (if b then 1 else 0))"
| "writeValue (GV (VString s)) = Some (writeType TypeString @ writeString s)"
| "writeValue (GV (VUint64 v)) = Some (writeType TypeUint64 @ le_bytes 8 (unat v))"
| "writeValue (GV (VInt64 v)) = Some (writeType TypeInt64 @ le_bytes 8 (unat v))"
| "writeValue (GV (VFloat64 v)) = Some (writeType TypeFloat64 @ le_bytes 8 (unat v))"
| "writeValue (GV (VArray vs)) = None"
| "writeValue GOther = None"

text \<open>The map \<open>CreateTestGGUF\<close> builds; \<open>entries\<close> is the order in which it ranges over
  \<open>FileTypeNames\<close>.\<close>

definition fixture_kv :: "(u32 \<times> string) list \<Rightarrow> FixtureParams \<Rightarrow> (string \<rightharpoonup> goval)" where
  "fixture_kv entries params =
     (let arch = (if fp_Architecture params = [] then ''llama'' else fp_Architecture params);
          ctxLen = (if fp_ContextLength params = 0 then 4096 else fp_ContextLength params);
          quant = (if fp_Quantization params = [] then ''Q4_K_M'' else fp_Quantization params);
          kv = [''general.architecture'' \<mapsto> GV (VString arch),
                arch @ ''.context_length'' \<mapsto> GV (VUint64 ctxLen)];
          kv' = (case FileTypeNameToType entries quant of
                   (ftype, True) \<Rightarrow> kv(''general.file_type'' \<mapsto> GV (VUint32 ftype))
                 | (_, False) \<Rightarrow> kv(''general.quantization'' \<mapsto> GV (VString quant)))
      in kv' ++ fp_ExtraKV params)"

text \<open>The writing loop over the keys in the order \<open>ord\<close> the map iteration yields them.\<close>

fun writeKVs :: "(string \<rightharpoonup> goval) \<Rightarrow> string list \<Rightarrow> string option" where
  "writeKVs kv [] = Some []"
| "writeKVs kv (k # ks) =
     (case Option.bind (kv k) writeValue of
        None \<Rightarrow> None
      | Some v \<Rightarrow> map_option (\<lambda>rest. writeString k @ v @ rest) (writeKVs kv ks))"

definition CreateTestGGUF ::
  "(u32 \<times> string) list \<Rightarrow> FixtureParams \<Rightarrow> string list \<Rightarrow> string option"
where
  "CreateTestGGUF entries params ord =
     map_option (\<lambda>body. Magic @ le_bytes 4 3 @ le_bytes 8 0 @ le_bytes 8 (length ord) @ body)
       (writeKVs (fixture_kv entries params) ord)"

section \<open>Bounds on decoded values\<close>

fun gval_ok :: "nat \<Rightarrow> gval \<Rightarrow> bool" where
  "gval_ok d (VString s) \<longleftrightarrow> length s \<le> maxStringLength"
| "gval_ok d (VArray vs) \<longleftrightarrow>
     (case d of 0 \<Rightarrow> False
      | Suc d' \<Rightarrow> length vs \<le> maxArrayLength \<and> list_all (gval_ok d') vs)"
| "gval_ok d v \<longleftrightarrow> True"

definition kv_ok :: "(string \<rightharpoonup> gval) \<Rightarrow> bool" where
  "kv_ok kv \<longleftrightarrow> (\<forall>k v. kv k = Some v \<longrightarrow> length k \<le> maxStringLength \<and> gval_ok maxArrayDepth v)"

definition goval_ok :: "goval \<Rightarrow> bool" where
  "goval_ok v \<longleftrightarrow> (case v of GV (VString s) \<Rightarrow> length s \<le> maxStringLength | _ \<Rightarrow> True)"

text \<open>What the reader finds for a written value: an \<open>int\<close> becomes a uint32, a \<open>uint\<close> a uint64.\<close>

fun goval_read :: "goval \<Rightarrow> gval" where
  "goval_read (GV v) = v"
| "goval_read (GInt i) = VUint32 (word_of_int i)"
| "goval_read (GUint n) = VUint64 n"
| "goval_read GOther = VBool False"

definition readTyped :: "reader \<Rightarrow> (gguf_err, gval \<times> reader) res" where
  "readTyped r =
     res_bind (map_err (\<lambda>_. ErrCorruptHeader) (read_le 4 r)) (\<lambda>(valType, r2).
       map_err wrap_kv_err (readValue r2 valType False 0))"

text \<open>A key with its value, as the writing loop emits it.\<close>

definition writeKV :: "string \<times> goval \<Rightarrow> string option" where
  "writeKV kv = map_option (\<lambda>v. writeString (fst kv) @ v) (writeValue (snd kv))"

definition or_default :: "'a \<Rightarrow> 'a \<Rightarrow> 'a \<Rightarrow> 'a" where
  "or_default z d x = (if x = z then d else x)"

section \<open>Lemmas: numbers and the byte source\<close>

lemma length_le_bytes [simp]: "length (le_bytes k v) = k"
  by (induction k arbitrary: v) simp_all

lemma le_nat_le_bytes: "le_nat (le_bytes k v) = v mod 256 ^ k"
proof (induction k arbitrary: v)
  case 0
  then show ?case by simp
next
  case (Suc k)
  have "v mod (256 * 256 ^ k) = 256 * (v div 256 mod 256 ^ k) + v mod 256"
    by (rule mod_mult2_eq)
  then show ?case by (simp add: Suc)
qed

lemma le_nat_le_bytes_word:
  fixes w :: "'a::len word"
  assumes "LENGTH('a) = 8 * k"
  shows "word_of_nat (le_nat (le_bytes k (unat w))) = w"
proof -
  have "unat w < 256 ^ k"
    using unsigned_less [of w] by (simp add: assms power_mult)
  then show ?thesis by (simp add: le_nat_le_bytes)
qed

section \<open>Prefix parsers\<close>

text \<open>
  The interface every reading function offers its callers: a successful read takes a prefix of
  the pending bytes, and neither the value nor the prefix depends on what follows or on how the
  source ends.
\<close>

locale byte_parser =
  fixes p :: "reader \<Rightarrow> ('e, 'a \<times> reader) res"
  assumes prefix:
    "p r = Inr (a, r') \<Longrightarrow>
       \<exists>c. pending r = c @ pending r' \<and> broken r' = broken r \<and>
           (\<forall>t b. p \<lparr>pending = c @ t, broken = b\<rparr> = Inr (a, \<lparr>pending = t, broken = b\<rparr>))"
begin

lemma deterministic_prefix:
  assumes "p \<lparr>pending = c @ t, broken = b\<rparr> = Inr (a, \<lparr>pending = t, broken = b\<rparr>)"
  shows "p \<lparr>pending = c @ t', broken = b'\<rparr> = Inr (a, \<lparr>pending = t', broken = b'\<rparr>)"
  using prefix [OF assms] by auto

lemma no_proper_prefix:
  assumes "p \<lparr>pending = c @ t, broken = b\<rparr> = Inr (a, \<lparr>pending = t, broken = b\<rparr>)"
    and "c = c1 @ x" "x \<noteq> []"
  shows "\<exists>e. p \<lparr>pending = c1, broken = b'\<rparr> = Inl e"
proof (rule ccontr)
  assume "\<not> ?thesis"
  then obtain a1 r1 where r1: "p \<lparr>pending = c1, broken = b'\<rparr> = Inr (a1, r1)"
    by (metis old.prod.exhaust sum.exhaust)
  then obtain d where d: "c1 = d @ pending r1"
    and dd: "\<And>t b. p \<lparr>pending = d @ t, broken = b\<rparr> = Inr (a1, \<lparr>pending = t, broken = b\<rparr>)"
    using prefix [OF r1] by auto
  have "p \<lparr>pending = c @ t, broken = b\<rparr> = Inr (a1, \<lparr>pending = pending r1 @ x @ t, broken = b\<rparr>)"
    using dd [of "pending r1 @ x @ t" b] assms(2) d by simp
  with assms(1) have "t = pending r1 @ x @ t" by simp
  then have "length t = length (pending r1) + length x + length t"
    by (metis add.assoc length_append)
  with assms(3) show False by simp
qed

end

lemma byte_parser_ret: "byte_parser (\<lambda>r. Inr (a, r))"
  by (rule byte_parser.intro) auto

lemma byte_parser_err: "byte_parser (\<lambda>r. Inl e)"
  by (rule byte_parser.intro) auto

lemma byte_parser_bind:
  assumes "byte_parser p" and "\<And>a. byte_parser (q a)"
  shows "byte_parser (\<lambda>r. res_bind (p r) (\<lambda>(a, r'). q a r'))"
proof (rule byte_parser.intro)
  fix r b r'
  assume "res_bind (p r) (\<lambda>(a, r'). q a r') = Inr (b, r')"
  then obtain a r1 where p: "p r = Inr (a, r1)" and q: "q a r1 = Inr (b, r')"
    by (auto simp: res_simps)
  obtain c1 where c1: "pending r = c1 @ pending r1" "broken r1 = broken r"
    "\<And>t b. p \<lparr>pending = c1 @ t, broken = b\<rparr> = Inr (a, \<lparr>pending = t, broken = b\<rparr>)"
    using byte_parser.prefix [OF assms(1) p] by blast
  obtain c2 where c2: "pending r1 = c2 @ pending r'" "broken r' = broken r1"
    "\<And>t b'. q a \<lparr>pending = c2 @ t, broken = b'\<rparr> = Inr (b, \<lparr>pending = t, broken = b'\<rparr>)"
    using byte_parser.prefix [OF assms(2) q] by blast
  show "\<exists>c. pending r = c @ pending r' \<and> broken r' = broken r \<and>
     (\<forall>t ba. res_bind (p \<lparr>pending = c @ t, broken = ba\<rparr>) (\<lambda>(a, r'). q a r') =
        Inr (b, \<lparr>pending = t, broken = ba\<rparr>))"
    using c1 c2 by (intro exI [of _ "c1 @ c2"]) simp
qed

lemma byte_parser_map_err:
  assumes "byte_parser p"
  shows "byte_parser (\<lambda>r. map_err g (p r))"
  using byte_parser.prefix [OF assms] by (auto intro!: byte_parser.intro simp: res_simps)

lemma byte_parser_if:
  "byte_parser p \<Longrightarrow> byte_parser q \<Longrightarrow> byte_parser (\<lambda>r. if b then p r else q r)"
  by (cases b) auto

lemma byte_parser_ReadFull: "byte_parser (ReadFull n)"
proof (rule byte_parser.intro)
  fix r a r'
  assume "ReadFull n r = Inr (a, r')"
  then have n: "n \<le> length (pending r)" "a = take n (pending r)"
      "r' = r\<lparr>pending := drop n (pending r)\<rparr>"
    by (auto simp: ReadFull_def split: if_splits)
  then show "\<exists>c. pending r = c @ pending r' \<and> broken r' = broken r \<and>
      (\<forall>t b. ReadFull n \<lparr>pending = c @ t, broken = b\<rparr> = Inr (a, \<lparr>pending = t, broken = b\<rparr>))"
    by (intro exI [of _ "take n (pending r)"]) (simp add: ReadFull_def min_def)
qed

lemmas byte_parser_rules =
  byte_parser_bind byte_parser_map_err byte_parser_if byte_parser_ReadFull
  byte_parser_ret byte_parser_err

lemma byte_parser_bind_ret:
  "byte_parser p \<Longrightarrow> byte_parser (\<lambda>r. res_bind (p r) (\<lambda>(a, r'). Inr (f a, r')))"
  by (rule byte_parser_bind [where q = "\<lambda>a r. Inr (f a, r)"]) (simp_all add: byte_parser_ret)

lemma byte_parser_read_le: "byte_parser (read_le k)"
  unfolding read_le_def [abs_def] by (intro byte_parser_bind_ret byte_parser_rules)

lemma byte_parser_read_len: "byte_parser (read_len v1)"
  unfolding read_len_def [abs_def]
  by (intro byte_parser_rules byte_parser_bind_ret byte_parser_read_le)

lemma byte_parser_readString: "byte_parser (\<lambda>r. readString r v1)"
  unfolding readString_def
  by (intro byte_parser_rules byte_parser_read_len)

lemma byte_parser_read_scalar: "byte_parser (read_scalar k mk)"
  unfolding read_scalar_def [abs_def]
  by (intro byte_parser_rules byte_parser_bind_ret byte_parser_read_le)

lemma byte_parser_readElems: "byte_parser p \<Longrightarrow> byte_parser (readElems p n)"
proof (induction n)
  case 0
  then show ?case by (simp add: byte_parser_ret)
next
  case (Suc n)
  then show ?case
    unfolding readElems.simps by (intro byte_parser_bind byte_parser_bind_ret byte_parser_map_err)
qed

lemma byte_parser_readArray:
  "(\<And>t. byte_parser (\<lambda>r. elem r t)) \<Longrightarrow> byte_parser (readArray elem v1)"
  unfolding readArray_def [abs_def]
  by (intro byte_parser_rules byte_parser_bind_ret byte_parser_read_le byte_parser_read_len
      byte_parser_readElems)

lemma byte_parser_readSwitch:
  "byte_parser array \<Longrightarrow> byte_parser (\<lambda>r. readSwitch array r valType v1)"
  unfolding readSwitch_def
  by (intro byte_parser_if byte_parser_err byte_parser_read_scalar byte_parser_bind_ret
      byte_parser_readString)

lemma byte_parser_readValue_left: "byte_parser (\<lambda>r. readValue_left left r valType v1)"
  by (induction left arbitrary: valType)
    (auto intro!: byte_parser_readSwitch byte_parser_err byte_parser_readArray)

lemma byte_parser_readKV: "byte_parser (readKV v1)"
  unfolding readKV_def [abs_def] readValue_def
  by (intro byte_parser_rules byte_parser_bind_ret byte_parser_readString byte_parser_read_le
      byte_parser_readValue_left)

lemma byte_parser_readKVs: "byte_parser (\<lambda>r. readKVs n v1 r kv)"
proof (induction n arbitrary: kv)
  case 0
  then show ?case by (simp add: byte_parser_ret)
next
  case (Suc n)
  have "byte_parser (\<lambda>r. res_bind (readKV v1 r) (\<lambda>(a, r1). readKVs n v1 r1 (kv(fst a \<mapsto> snd a))))"
    by (intro byte_parser_bind byte_parser_readKV Suc)
  then show ?case by (simp add: case_prod_unfold)
qed

lemma byte_parser_readMagic: "byte_parser readMagic"
  unfolding readMagic_def [abs_def] by (intro byte_parser_rules)

lemma byte_parser_readVersion: "byte_parser readVersion"
  unfolding readVersion_def [abs_def] by (intro byte_parser_rules byte_parser_read_le)

interpretation header: byte_parser "ReadHeader ovf" for ovf
  unfolding ReadHeader_def [abs_def]
  by (intro byte_parser_rules byte_parser_bind_ret byte_parser_readMagic byte_parser_readVersion
      byte_parser_read_len byte_parser_readKVs)

section \<open>Bounds and errors of the reader\<close>

lemma ReadFull_length: "ReadFull n r = Inr (bs, r') \<Longrightarrow> length bs = n"
  by (auto simp: ReadFull_def split: if_splits)

lemma readString_bound: "readString r v1 = Inr (s, r') \<Longrightarrow> length s \<le> maxStringLength"
  by (auto simp: readString_def res_simps dest: ReadFull_length split: if_splits)

lemma readElems_all:
  assumes "readElems p n r = Inr (vs, r')" and "\<And>r v r'. p r = Inr (v, r') \<Longrightarrow> P v"
  shows "length vs = n \<and> list_all P vs"
  using assms(1)
proof (induction n arbitrary: r vs)
  case 0
  then show ?case by simp
next
  case (Suc n)
  from Suc.prems obtain v r1 vs1 where "p r = Inr (v, r1)" "readElems p n r1 = Inr (vs1, r')"
      "vs = v # vs1"
    by (auto simp: res_simps)
  with Suc.IH assms(2) show ?case by auto
qed

lemma read_scalar_ok: "read_scalar k mk r = Inr (v, r') \<Longrightarrow> \<exists>w. v = mk w"
  by (auto simp: read_scalar_def res_simps)

lemma readSwitch_ok:
  assumes "readSwitch array r valType v1 = Inr (v, r')"
    and "array r = Inr (v, r') \<Longrightarrow> gval_ok d v"
  shows "gval_ok d v"
  using assms unfolding readSwitch_def
  by (auto split: if_splits simp: res_simps dest!: read_scalar_ok readString_bound)

lemma readValue_left_ok: "readValue_left left r valType v1 = Inr (v, r') \<Longrightarrow> gval_ok left v"
proof (induction left arbitrary: r valType v r')
  case 0
  then show ?case by (auto elim!: readSwitch_ok)
next
  case (Suc left)
  have "gval_ok (Suc left) v"
    if arr: "readArray (\<lambda>r' elemType. readValue_left left r' elemType v1) v1 r = Inr (v, r')"
  proof -
    from arr obtain t n r2 vs where "n \<le> maxArrayLength" "v = VArray vs"
      "readElems (\<lambda>r'. readValue_left left r' t v1) n r2 = Inr (vs, r')"
      by (auto simp: readArray_def res_simps not_less split: if_splits)
    with readElems_all [OF this(3), of "gval_ok left"] Suc.IH show ?thesis by auto
  qed
  with Suc.prems show ?case by (auto elim!: readSwitch_ok)
qed

lemma readKV_ok:
  "readKV v1 r = Inr ((k, v), r') \<Longrightarrow> length k \<le> maxStringLength \<and> gval_ok maxArrayDepth v"
  by (auto simp: readKV_def readValue_def res_simps dest!: readString_bound readValue_left_ok)

lemma readKVs_ok:
  "readKVs n v1 r kv = Inr (kv', r') \<Longrightarrow> kv_ok kv \<Longrightarrow> finite (dom kv) \<Longrightarrow>
     kv_ok kv' \<and> finite (dom kv') \<and> card (dom kv') \<le> card (dom kv) + n"
proof (induction n arbitrary: r kv)
  case 0
  then show ?case by simp
next
  case (Suc n)
  from Suc.prems(1) obtain k v r1 where kv: "readKV v1 r = Inr ((k, v), r1)"
      "readKVs n v1 r1 (kv(k \<mapsto> v)) = Inr (kv', r')"
    by (auto simp: res_simps)
  have ok: "kv_ok (kv(k \<mapsto> v))"
    using Suc.prems(2) readKV_ok [OF kv(1)] by (auto simp: kv_ok_def)
  have fin: "finite (dom (kv(k \<mapsto> v)))"
    using Suc.prems(3) by simp
  have "card (dom (kv(k \<mapsto> v))) \<le> card (dom kv) + 1"
    using Suc.prems(3) by (simp add: card_insert_if)
  with Suc.IH [OF kv(2) ok fin] show ?case by (simp del: fun_upd_apply)
qed

lemma wrap_kv_err_cases: "wrap_kv_err e = ErrHeaderTooLarge \<or> wrap_kv_err e = ErrCorruptHeader"
  by (simp add: wrap_kv_err_def)

lemma readKV_err: "readKV v1 r = Inl e \<Longrightarrow> e = ErrHeaderTooLarge \<or> e = ErrCorruptHeader"
  using wrap_kv_err_cases by (auto simp: readKV_def res_simps)

lemma readKVs_err: "readKVs n v1 r kv = Inl e \<Longrightarrow> e = ErrHeaderTooLarge \<or> e = ErrCorruptHeader"
  by (induction n arbitrary: r kv) (auto simp: res_simps dest: readKV_err)

lemma ReadFull_err: "ReadFull n r = Inl e \<Longrightarrow> (e = ErrRead \<longleftrightarrow> broken r) \<and> length (pending r) < n"
  by (auto simp: ReadFull_def split: if_splits)

lemma readMagic_err:
  "readMagic r = Inl e \<Longrightarrow>
     e = ErrInvalidMagic \<or> e = ErrIO ErrRead \<and> broken r \<and> length (pending r) < 4"
  using ReadFull_err [of 4 r]
  by (auto simp: readMagic_def res_simps split: if_splits)
     (metis io_err.exhaust)+

section \<open>Reading back what was written\<close>

text \<open>
  A parser together with a writer for it: what the writer produces is read back as \<open>val\<close>, and
  whatever follows is left alone.
\<close>

locale codec = byte_parser dec for dec :: "reader \<Rightarrow> ('e, 'b \<times> reader) res" +
  fixes enc :: "'a \<Rightarrow> string option" and val :: "'a \<Rightarrow> 'b" and ok :: "'a \<Rightarrow> bool"
  assumes decode:
    "enc a = Some bs \<Longrightarrow> ok a \<Longrightarrow>
       dec \<lparr>pending = bs @ rest, broken = b\<rparr> = Inr (val a, \<lparr>pending = rest, broken = b\<rparr>)"
begin

lemma enc_prefix_free:
  assumes "enc a = Some (c1 @ x)" "ok a" "x \<noteq> []"
  shows "\<exists>e. dec \<lparr>pending = c1, broken = b\<rparr> = Inl e"
  using no_proper_prefix [OF decode [OF assms(1,2), of "[]" b] refl assms(3)] .

lemma enc_inj:
  assumes "enc a = Some bs" "enc a' = Some bs" "ok a" "ok a'"
  shows "val a = val a'"
  using decode [OF assms(1,3), of "[]" False] decode [OF assms(2,4), of "[]" False] by simp

end

lemma ReadFull_append [simp]:
  "length bs = n \<Longrightarrow>
     ReadFull n \<lparr>pending = bs @ rest, broken = b\<rparr> = Inr (bs, \<lparr>pending = rest, broken = b\<rparr>)"
  by (simp add: ReadFull_def)

lemma read_le_append [simp]:
  fixes w :: "'a::len word"
  assumes "LENGTH('a) = 8 * k"
  shows "read_le k \<lparr>pending = le_bytes k (unat w) @ rest, broken = b\<rparr> =
           Inr (w, \<lparr>pending = rest, broken = b\<rparr>)"
  by (simp add: read_le_def le_nat_le_bytes_word [OF assms])

lemma read_le_u64 [simp]:
  assumes "n < 2 ^ 64"
  shows "read_le 8 \<lparr>pending = le_bytes 8 n @ rest, broken = b\<rparr> =
           Inr (word_of_nat n :: u64, \<lparr>pending = rest, broken = b\<rparr>)"
proof -
  have "unat (word_of_nat n :: u64) = n"
    using assms by (simp add: unsigned_of_nat take_bit_eq_mod)
  then show ?thesis using read_le_append [where w = "word_of_nat n :: u64" and k = 8] by simp
qed

lemma readString_writeString:
  assumes "length s \<le> maxStringLength"
  shows "readString \<lparr>pending = writeString s @ rest, broken = b\<rparr> False =
           Inr (s, \<lparr>pending = rest, broken = b\<rparr>)"
proof -
  have n: "length s < 2 ^ 64" using assms by (simp add: maxStringLength_def)
  then have "unat (word_of_nat (length s) :: u64) = length s"
    by (simp add: unsigned_of_nat take_bit_eq_mod)
  with n assms show ?thesis
    by (simp add: readString_def read_len_def writeString_def)
qed

interpretation strings: codec "\<lambda>r. readString r False" "\<lambda>s. Some (writeString s)" "\<lambda>s. s"
  "\<lambda>s. length s \<le> maxStringLength"
proof (intro codec.intro byte_parser_readString codec_axioms.intro)
qed (auto simp: readString_writeString)

lemma readValue_switch:
  "readValue r t v1 0 = readSwitch (readArray (\<lambda>r' e. readValue_left 7 r' e v1) v1) r t v1"
  by (simp add: readValue_def maxArrayDepth_def eval_nat_numeral)

lemma read_scalar_append [simp]:
  fixes w :: "'a::len word"
  assumes "LENGTH('a) = 8 * k"
  shows "read_scalar k mk \<lparr>pending = le_bytes k (unat w) @ rest, broken = b\<rparr> =
           Inr (mk w, \<lparr>pending = rest, broken = b\<rparr>)"
  by (simp add: read_scalar_def read_le_append [OF assms])

lemma read_scalar_bool [simp]:
  "read_scalar (Suc 0) (\<lambda>v :: u8. VBool (v \<noteq> 0))
     \<lparr>pending = le_bytes (Suc 0) (Suc 0) @ rest, broken = b\<rparr> =
     Inr (VBool True, \<lparr>pending = rest, broken = b\<rparr>)"
  "read_scalar (Suc 0) (\<lambda>v :: u8. VBool (v \<noteq> 0))
     \<lparr>pending = le_bytes (Suc 0) 0 @ rest, broken = b\<rparr> =
     Inr (VBool False, \<lparr>pending = rest, broken = b\<rparr>)"
  using read_scalar_append [where w = "1 :: u8" and k = 1]
    read_scalar_append [where w = "0 :: u8" and k = 1] by simp_all

lemma readSwitch_types:
  "readSwitch a r TypeUint8 v1 = read_scalar 1 VUint8 r"
  "readSwitch a r TypeInt8 v1 = read_scalar 1 VInt8 r"
  "readSwitch a r TypeUint16 v1 = read_scalar 2 VUint16 r"
  "readSwitch a r TypeInt16 v1 = read_scalar 2 VInt16 r"
  "readSwitch a r TypeUint32 v1 = read_scalar 4 VUint32 r"
  "readSwitch a r TypeInt32 v1 = read_scalar 4 VInt32 r"
  "readSwitch a r TypeFloat32 v1 = read_scalar 4 VFloat32 r"
  "readSwitch a r TypeBool v1 = read_scalar 1 (\<lambda>v :: u8. VBool (v \<noteq> 0)) r"
  "readSwitch a r TypeString v1 = res_bind (readString r v1) (\<lambda>(s, r'). Inr (VString s, r'))"
  "readSwitch a r TypeArray v1 = a r"
  "readSwitch a r TypeUint64 v1 = read_scalar 8 VUint64 r"
  "readSwitch a r TypeInt64 v1 = read_scalar 8 VInt64 r"
  "readSwitch a r TypeFloat64 v1 = read_scalar 8 VFloat64 r"
  by (simp_all add: readSwitch_def gguf_type_defs)

lemma readTyped_type:
  "readTyped \<lparr>pending = writeType t @ rest, broken = b\<rparr> =
     map_err wrap_kv_err (readValue \<lparr>pending = rest, broken = b\<rparr> t False 0)"
  by (simp add: readTyped_def writeType_def)

lemma readTyped_writeValue:
  assumes "writeValue v = Some bs" "goval_ok v"
  shows "readTyped \<lparr>pending = bs @ rest, broken = b\<rparr> =
           Inr (goval_read v, \<lparr>pending = rest, broken = b\<rparr>)"
  using assms
  by (cases v rule: writeValue.cases)
    (auto simp: readTyped_type readValue_switch readSwitch_types goval_ok_def
      readString_writeString simp del: le_bytes.simps)

interpretation typed: codec readTyped writeValue goval_read goval_ok
proof (intro codec.intro codec_axioms.intro)
  show "byte_parser readTyped"
    unfolding readTyped_def [abs_def] readValue_def
    by (intro byte_parser_rules byte_parser_read_le byte_parser_readValue_left)
qed (rule readTyped_writeValue)

lemma readKV_readTyped:
  "readKV False r =
     res_bind (map_err wrap_kv_err (readString r False)) (\<lambda>(key, r1).
     res_bind (readTyped r1) (\<lambda>(val, r3). Inr ((key, val), r3)))"
  by (cases "readString r False")
     (auto simp: readKV_def readTyped_def res_bind_def map_err_def split: sum.splits prod.splits)

interpretation pairs: codec "readKV False" writeKV "\<lambda>(k, v). (k, goval_read v)"
  "\<lambda>(k, v). length k \<le> maxStringLength \<and> goval_ok v"
proof (intro codec.intro byte_parser_readKV codec_axioms.intro)
qed (auto simp: writeKV_def readKV_readTyped readString_writeString readTyped_writeValue)

lemma readKVs_writeKVs:
  assumes "writeKVs kv ks = Some bs"
    and "\<And>k v. k \<in> set ks \<Longrightarrow> kv k = Some v \<Longrightarrow> length k \<le> maxStringLength \<and> goval_ok v"
  shows "readKVs (length ks) False \<lparr>pending = bs @ rest, broken = b\<rparr> acc =
           Inr (\<lambda>k. if k \<in> set ks then map_option goval_read (kv k) else acc k,
                \<lparr>pending = rest, broken = b\<rparr>)"
  using assms
proof (induction ks arbitrary: bs acc)
  case Nil
  then show ?case by simp
next
  case (Cons k ks)
  from Cons.prems(1) obtain v w bs' where v: "kv k = Some v" "writeValue v = Some w"
      "writeKVs kv ks = Some bs'" "bs = writeString k @ w @ bs'"
    by (auto split: option.splits bind_splits)
  have "readKV False \<lparr>pending = (writeString k @ w) @ bs' @ rest, broken = b\<rparr> =
          Inr ((k, goval_read v), \<lparr>pending = bs' @ rest, broken = b\<rparr>)"
    using pairs.decode [of "(k, v)" "writeString k @ w"] v Cons.prems(2) [of k v] by (simp add: writeKV_def)
  moreover have "readKVs (length ks) False \<lparr>pending = bs' @ rest, broken = b\<rparr> (acc(k \<mapsto> goval_read v)) =
      Inr (\<lambda>j. if j \<in> set ks then map_option goval_read (kv j) else (acc(k \<mapsto> goval_read v)) j,
           \<lparr>pending = rest, broken = b\<rparr>)"
    by (rule Cons.IH [OF v(3)]) (use Cons.prems(2) in auto)
  ultimately show ?case
    by (auto simp: v fun_eq_iff)
qed

lemma readMagic_Magic [simp]:
  "readMagic \<lparr>pending = Magic @ rest, broken = b\<rparr> = Inr ((), \<lparr>pending = rest, broken = b\<rparr>)"
  by (simp add: readMagic_def Magic_def ReadFull_def)

lemma FileTypeTable_upper_distinct: "distinct (map (ToUpper \<circ> snd) FileTypeTable)"
  by code_simp

lemma FileTypeTable_distinct: "distinct (map fst FileTypeTable)"
  by code_simp

lemma FileTypeNameToType_iff:
  assumes "mset entries = mset FileTypeTable"
  shows "FileTypeNameToType entries name = (code, True) \<longleftrightarrow>
           (\<exists>n. FileTypeNames code = Some n \<and> ToUpper n = ToUpper name)"
proof -
  have set: "set entries = set FileTypeTable"
    using assms by (metis set_mset_mset)
  have uniq: "c = c'"
    if "(c, n) \<in> set FileTypeTable" "(c', n') \<in> set FileTypeTable" "ToUpper n = ToUpper n'"
    for c c' n n'
    using FileTypeTable_upper_distinct that
    by (metis comp_apply distinct_map inj_onD prod.inject snd_conv)
  have "FileTypeNameToType entries name = (code, True) \<longleftrightarrow>
      (\<exists>n. (code, n) \<in> set FileTypeTable \<and> ToUpper n = ToUpper name)"
  proof (cases "find (\<lambda>(code, strName). ToUpper strName = ToUpper name) entries")
    case None
    then have "\<forall>(c, n) \<in> set FileTypeTable. ToUpper n \<noteq> ToUpper name"
      by (auto simp: find_None_iff set)
    with None show ?thesis by (auto simp: FileTypeNameToType_def)
  next
    case (Some x)
    then have "x \<in> set FileTypeTable" "ToUpper (snd x) = ToUpper name"
      by (auto simp: find_Some_iff set [symmetric] in_set_conv_nth)
    with Some uniq show ?thesis
      by (cases x) (auto simp: FileTypeNameToType_def)
  qed
  also have "\<dots> \<longleftrightarrow> (\<exists>n. FileTypeNames code = Some n \<and> ToUpper n = ToUpper name)"
    by (simp add: FileTypeNames_def FileTypeTable_distinct)
  finally show ?thesis .
qed

lemma ucast_u32_u64 [simp]: "(ucast (ucast (x :: u32) :: u64) :: u32) = x"
  by (rule bit_word_eqI) (simp add: bit_unsigned_iff)

lemma context_length_key:
  "a @ ''.context_length'' \<noteq> ''general.architecture''"
  "a @ ''.context_length'' \<noteq> ''general.file_type''"
  "a @ ''.context_length'' \<noteq> ''general.quantization''"
  "a @ ''.block_count'' \<noteq> ''general.architecture''"
  "a @ ''.block_count'' \<noteq> ''general.file_type''"
  "a @ ''.block_count'' \<noteq> ''general.quantization''"
  by (auto dest!: arg_cong [of _ _ last])

lemma block_count_key: "a @ ''.context_length'' \<noteq> b @ ''.block_count''"
  by (auto dest!: arg_cong [of _ _ last])

lemma fixture_metadata:
  fixes ovf :: u64
  assumes "mset entries = mset FileTypeTable" and "fp_ExtraKV params = Map.empty"
  defines "m \<equiv> extractMetadata ovf (map_option goval_read \<circ> fixture_kv entries params)"
  shows "Architecture m = or_default [] ''llama'' (fp_Architecture params)"
    and "ContextLength m = or_default 0 4096 (fp_ContextLength params)"
    and "BlockCount m = 0"
    and "ToUpper (Quantization m) = ToUpper (or_default [] ''Q4_K_M'' (fp_Quantization params))"
proof -
  let ?arch = "or_default [] ''llama'' (fp_Architecture params)"
  let ?ctx = "or_default 0 4096 (fp_ContextLength params)"
  let ?q = "or_default [] ''Q4_K_M'' (fp_Quantization params)"
  let ?base = "[''general.architecture'' \<mapsto> GV (VString ?arch),
                ?arch @ ''.context_length'' \<mapsto> GV (VUint64 ?ctx)]"
  obtain code found where ft: "FileTypeNameToType entries ?q = (code, found)"
    by (cases "FileTypeNameToType entries ?q")
  have kv: "fixture_kv entries params =
      (if found then ?base(''general.file_type'' \<mapsto> GV (VUint32 code))
       else ?base(''general.quantization'' \<mapsto> GV (VString ?q)))"
    using ft by (cases found) (simp_all add: fixture_kv_def Let_def or_default_def assms(2))
  define kv0 where "kv0 = map_option goval_read \<circ> fixture_kv entries params"
  have base: "kv0 ''general.architecture'' = Some (VString ?arch)"
      "kv0 (?arch @ ''.context_length'') = Some (VUint64 ?ctx)"
      "kv0 (?arch @ ''.block_count'') = None"
    by (simp_all add: kv0_def kv context_length_key context_length_key [symmetric])
  have llm: "kv0 ''llm.block_count'' = None"
    using block_count_key [of ?arch "''llm''"] by (simp add: kv0_def kv)
  have quant: "kv0 ''general.file_type'' = (if found then Some (VUint32 code) else None)"
      "\<not> found \<Longrightarrow> kv0 ''general.quantization'' = Some (VString ?q)"
    by (simp_all add: kv0_def kv context_length_key [symmetric])
  have m: "m = extractMetadata ovf kv0" by (simp add: m_def kv0_def)
  note meta = m extractMetadata_def Let_def meta_architecture_def base llm
  show "Architecture m = ?arch" "ContextLength m = ?ctx" "BlockCount m = 0"
    by (simp_all add: meta)
  have q: "?q \<noteq> []" by (simp add: or_default_def)
  show "ToUpper (Quantization m) = ToUpper ?q"
  proof (cases found)
    case True
    with ft have "FileTypeNameToType entries ?q = (code, True)" by simp
    then obtain n where n: "FileTypeNames code = Some n" "ToUpper n = ToUpper ?q"
      unfolding FileTypeNameToType_iff [OF assms(1)] by (elim exE conjE)
    with q have "n \<noteq> []" by (auto simp: ToUpper_def)
    with n True show ?thesis
      by (simp add: meta meta_quantization_def file_type_quant_def quant)
  next
    case False
    with q show ?thesis by (simp add: meta meta_quantization_def quant)
  qed
qed

lemma float_trunc_bound: "float_le_2_64 m e \<Longrightarrow> float_trunc m e \<le> 2 ^ 64"
  by (auto simp: float_le_2_64_def float_trunc_def div_le_mono less_eq_div_iff_mult_less_eq
      split: if_splits)
     (metis div_le_mono nonzero_mult_div_cancel_right power_not_zero zero_neq_numeral)

lemma read_writeType [simp]:
  "read_le 4 \<lparr>pending = writeType t @ rest, broken = b\<rparr> = Inr (t, \<lparr>pending = rest, broken = b\<rparr>)"
  by (simp add: writeType_def)

lemma ReadHeader_fixture:
  assumes "CreateTestGGUF entries params ord = Some bs"
    and "set ord = dom (fixture_kv entries params)" and "length ord \<le> maxKVCount"
    and "\<forall>k v. fixture_kv entries params k = Some v \<longrightarrow> length k \<le> maxStringLength \<and> goval_ok v"
  shows "ReadHeader ovf \<lparr>pending = bs @ payload, broken = b\<rparr> =
           (let kv = map_option goval_read \<circ> fixture_kv entries params
            in Inr (\<lparr>Version = 3, TensorCount = 0, KVCount = word_of_nat (length ord),
                     Meta = extractMetadata ovf kv, KV = kv\<rparr>,
                    \<lparr>pending = payload, broken = b\<rparr>))"
proof -
  let ?kv = "map_option goval_read \<circ> fixture_kv entries params"
  from assms(1) obtain body where body: "writeKVs (fixture_kv entries params) ord = Some body"
      "bs = Magic @ le_bytes 4 3 @ le_bytes 8 0 @ le_bytes 8 (length ord) @ body"
    by (auto simp: CreateTestGGUF_def)
  have n: "length ord < 2 ^ 64" using assms(3) by (simp add: maxKVCount_def)
  then have un: "unat (word_of_nat (length ord) :: u64) = length ord"
    by (simp add: unsigned_of_nat take_bit_eq_mod)
  have kvs: "readKVs (length ord) False \<lparr>pending = body @ payload, broken = b\<rparr> Map.empty =
      Inr (?kv, \<lparr>pending = payload, broken = b\<rparr>)"
    using readKVs_writeKVs [OF body(1), of payload b Map.empty] assms(2,4)
    by (auto simp: fun_eq_iff domIff)
  have v3: "read_le 4 \<lparr>pending = le_bytes 4 3 @ x, broken = b\<rparr> =
      Inr (3 :: u32, \<lparr>pending = x, broken = b\<rparr>)" for x
    using read_le_append [where w = "3 :: u32" and k = 4] by simp
  show ?thesis
    using n un kvs assms(3) v3
    by (simp add: body(2) ReadHeader_def readVersion_def read_len_def Let_def)
qed

section \<open>Properties\<close>

text \<open>Samples for the witnesses: an empty header, and the default fixture.\<close>

definition empty_header :: string where
  "empty_header = Magic @ le_bytes 4 3 @ le_bytes 8 0 @ le_bytes 8 0"

definition default_params :: FixtureParams where
  "default_params = \<lparr>fp_Architecture = [], fp_ContextLength = 0, fp_Quantization = [],
                     fp_ExtraKV = Map.empty\<rparr>"

definition default_order :: "string list" where
  "default_order = [''general.file_type'', ''general.architecture'', ''llama.context_length'']"

lemma FileTypeNameToType_sample: "FileTypeNameToType FileTypeTable ''Q4_K_M'' = (15, True)"
  by code_simp

lemma default_kv:
  "fixture_kv FileTypeTable default_params =
     [''general.architecture'' \<mapsto> GV (VString ''llama''),
      ''llama.context_length'' \<mapsto> GV (VUint64 4096),
      ''general.file_type'' \<mapsto> GV (VUint32 15)]"
  by (simp add: fixture_kv_def default_params_def FileTypeNameToType_sample)

lemma default_order_dom: "set default_order = dom (fixture_kv FileTypeTable default_params)"
  by (auto simp: default_kv default_order_def)

lemma default_written: "\<exists>bs. CreateTestGGUF FileTypeTable default_params default_order = Some bs"
  by (simp add: CreateTestGGUF_def default_order_def default_kv)

lemma default_kv_ok:
  "\<forall>k v. fixture_kv FileTypeTable default_params k = Some v \<longrightarrow>
     length k \<le> maxStringLength \<and> goval_ok v"
  by (auto simp: default_kv maxStringLength_def goval_ok_def split: if_splits)

lemma ReadHeader_empty:
  "ReadHeader ovf \<lparr>pending = empty_header @ t, broken = b\<rparr> =
     Inr (\<lparr>Version = 3, TensorCount = 0, KVCount = 0, Meta = extractMetadata ovf Map.empty,
           KV = Map.empty\<rparr>, \<lparr>pending = t, broken = b\<rparr>)"
proof -
  have "read_le 4 \<lparr>pending = le_bytes 4 3 @ x, broken = b\<rparr> =
      Inr (3 :: u32, \<lparr>pending = x, broken = b\<rparr>)" for x
    using read_le_append [where w = "3 :: u32" and k = 4] by simp
  then show ?thesis
    by (simp add: empty_header_def ReadHeader_def readVersion_def read_len_def)
qed

text \<open>
  C4. Round trip of the header. Whatever map of values \<open>CreateTestGGUF\<close> writes, in whatever order
  it ranges over the map, \<open>ReadHeader\<close> reads back exactly that map (an \<open>int\<close> as uint32, a
  \<open>uint\<close> as uint64), with version 3, no tensors and the number of keys, and leaves the bytes
  after the header unread.
\<close>

theorem ReadHeader_CreateTestGGUF:
  assumes "CreateTestGGUF entries params ord = Some bs"
    and "set ord = dom (fixture_kv entries params)" and "length ord \<le> maxKVCount"
    and "\<forall>k v. fixture_kv entries params k = Some v \<longrightarrow> length k \<le> maxStringLength \<and> goval_ok v"
  shows "ReadHeader ovf \<lparr>pending = bs @ payload, broken = b\<rparr> =
           (let kv = map_option goval_read \<circ> fixture_kv entries params
            in Inr (\<lparr>Version = 3, TensorCount = 0, KVCount = word_of_nat (length ord),
                     Meta = extractMetadata ovf kv, KV = kv\<rparr>,
                    \<lparr>pending = payload, broken = b\<rparr>))"
  using assms by (rule ReadHeader_fixture)

theorem ReadHeader_CreateTestGGUF_witness:
  "\<exists>bs. CreateTestGGUF FileTypeTable default_params default_order = Some bs \<and>
     ReadHeader 0 \<lparr>pending = bs @ ''tensor data'', broken = False\<rparr> =
       (let kv = map_option goval_read \<circ> fixture_kv FileTypeTable default_params
        in Inr (\<lparr>Version = 3, TensorCount = 0, KVCount = word_of_nat (length default_order),
                 Meta = extractMetadata 0 kv, KV = kv\<rparr>,
                \<lparr>pending = ''tensor data'', broken = False\<rparr>))"
proof -
  obtain bs where bs: "CreateTestGGUF FileTypeTable default_params default_order = Some bs"
    using default_written by blast
  have n: "length default_order \<le> maxKVCount" by (simp add: default_order_def maxKVCount_def)
  show ?thesis
    using bs ReadHeader_CreateTestGGUF [OF bs default_order_dom n default_kv_ok] by blast
qed

text \<open>
  C18. A successful \<open>ReadHeader\<close> reads exactly the header: it consumes a prefix of the input, the
  result is the same whatever follows that prefix (the tensor payload is never looked at), and
  every truncation of it is rejected.
\<close>

theorem ReadHeader_prefix:
  assumes "ReadHeader ovf r = Inr (h, r')"
  shows "\<exists>c. pending r = c @ pending r' \<and>
             (\<forall>payload b. ReadHeader ovf \<lparr>pending = c @ payload, broken = b\<rparr> =
                            Inr (h, \<lparr>pending = payload, broken = b\<rparr>)) \<and>
             (\<forall>n b. n < length c \<longrightarrow>
                (\<exists>e. ReadHeader ovf \<lparr>pending = take n c, broken = b\<rparr> = Inl e))"
proof -
  from header.prefix [OF assms] obtain c where c: "pending r = c @ pending r'"
    and all: "\<And>t b. ReadHeader ovf \<lparr>pending = c @ t, broken = b\<rparr> = Inr (h, \<lparr>pending = t, broken = b\<rparr>)"
    by blast
  have "\<exists>e. ReadHeader ovf \<lparr>pending = take n c, broken = b\<rparr> = Inl e" if "n < length c" for n b
    using header.no_proper_prefix [OF all [of "[]" False], of "take n c" "drop n c" b] that by simp
  with c all show ?thesis by blast
qed

theorem ReadHeader_prefix_witness:
  "\<exists>c. empty_header @ ''xyz'' = c @ ''xyz'' \<and>
       (\<forall>payload b. \<exists>h. ReadHeader 0 \<lparr>pending = c @ payload, broken = b\<rparr> =
                        Inr (h, \<lparr>pending = payload, broken = b\<rparr>))"
  using ReadHeader_prefix [OF ReadHeader_empty [of 0 "''xyz''" False]] by auto

text \<open>
  C19. The security bounds hold for every header that is accepted: the version is one of the three
  supported, there are at most \<^const>\<open>maxKVCount\<close> keys, every key and string is at most
  \<^const>\<open>maxStringLength\<close> bytes, every array at most \<^const>\<open>maxArrayLength\<close> elements, and arrays
  nest at most \<^const>\<open>maxArrayDepth\<close> deep.
\<close>

theorem ReadHeader_bounds:
  assumes "ReadHeader ovf r = Inr (h, r')"
  shows "Version h \<in> {1, 2, 3} \<and> unat (KVCount h) \<le> maxKVCount \<and>
         finite (dom (KV h)) \<and> card (dom (KV h)) \<le> unat (KVCount h) \<and> kv_ok (KV h)"
proof -
  from assms obtain n r1 where n: "unat (KVCount h) \<le> maxKVCount"
      "readKVs (unat (KVCount h)) (Version h = 1) r1 Map.empty = Inr (KV h, r')"
      and v: "Version h \<in> {1, 2, 3}"
    by (auto simp: ReadHeader_def readVersion_def res_simps not_less split: if_splits)
  have "kv_ok Map.empty" by (simp add: kv_ok_def)
  with readKVs_ok [OF n(2)] n(1) v show ?thesis by simp
qed

theorem ReadHeader_bounds_witness:
  "\<exists>h r'. ReadHeader 0 \<lparr>pending = empty_header, broken = False\<rparr> = Inr (h, r') \<and>
     unat (KVCount h) \<le> maxKVCount \<and> kv_ok (KV h)"
  using ReadHeader_bounds [OF ReadHeader_empty [of 0 "[]" False]]
    ReadHeader_empty [of 0 "[]" False] by auto

text \<open>
  Every failure of \<open>ReadHeader\<close> carries one of the package's sentinels; the one exception is
  a source that itself fails, with an error other than end-of-file, within the first four bytes.
\<close>

theorem ReadHeader_errors:
  assumes "ReadHeader ovf r = Inl e"
  shows "e \<in> {ErrInvalidMagic, ErrHeaderTooLarge, ErrCorruptHeader} \<or>
         (\<exists>v. e = ErrUnsupportedVersion v \<and> v \<notin> {1, 2, 3}) \<or>
         (e = ErrIO ErrRead \<and> broken r \<and> length (pending r) < 4)"
  using assms readMagic_err [of r e]
  by (auto simp: ReadHeader_def readVersion_def res_simps dest: readKVs_err split: if_splits)

theorem ReadHeader_errors_witness:
  "ReadHeader 0 \<lparr>pending = ''GGU'', broken = True\<rparr> = Inl (ErrIO ErrRead) \<and>
   (\<exists>e. ReadHeader 0 \<lparr>pending = ''GGU'', broken = True\<rparr> = Inl e \<and>
     (e \<in> {ErrInvalidMagic, ErrHeaderTooLarge, ErrCorruptHeader} \<or>
      (\<exists>v. e = ErrUnsupportedVersion v \<and> v \<notin> {1, 2, 3}) \<or> e = ErrIO ErrRead))"
proof -
  have h: "ReadHeader 0 \<lparr>pending = ''GGU'', broken = True\<rparr> = Inl (ErrIO ErrRead)"
    by (simp add: ReadHeader_def readMagic_def ReadFull_def)
  show ?thesis using h ReadHeader_errors [OF h] by auto
qed

text \<open>
  The fields \<open>CreateTestGGUF\<close> is given come back as the metadata of the header: the
  architecture, the context length and, up to letter case, the quantization, each with the
  documented default where the field was left empty, and a block count of 0.
\<close>

theorem fixture_metadata_roundtrip:
  assumes "CreateTestGGUF entries params ord = Some bs"
    and "set ord = dom (fixture_kv entries params)" and "length ord \<le> maxKVCount"
    and "\<forall>k v. fixture_kv entries params k = Some v \<longrightarrow> length k \<le> maxStringLength \<and> goval_ok v"
    and "mset entries = mset FileTypeTable" and "fp_ExtraKV params = Map.empty"
  shows "\<exists>h. ReadHeader ovf \<lparr>pending = bs @ payload, broken = b\<rparr> =
               Inr (h, \<lparr>pending = payload, broken = b\<rparr>) \<and>
             Architecture (Meta h) = or_default [] ''llama'' (fp_Architecture params) \<and>
             ContextLength (Meta h) = or_default 0 4096 (fp_ContextLength params) \<and>
             BlockCount (Meta h) = 0 \<and>
             ToUpper (Quantization (Meta h)) =
               ToUpper (or_default [] ''Q4_K_M'' (fp_Quantization params))"
  using ReadHeader_fixture [OF assms(1-4), of ovf payload b] fixture_metadata [OF assms(5,6)]
  by (simp add: Let_def)

theorem fixture_metadata_roundtrip_witness:
  "\<exists>bs h. CreateTestGGUF FileTypeTable default_params default_order = Some bs \<and>
     ReadHeader 0 \<lparr>pending = bs @ [], broken = False\<rparr> = Inr (h, \<lparr>pending = [], broken = False\<rparr>) \<and>
     ContextLength (Meta h) = 4096"
proof -
  obtain bs where bs: "CreateTestGGUF FileTypeTable default_params default_order = Some bs"
    using default_written by blast
  have n: "length default_order \<le> maxKVCount" by (simp add: default_order_def maxKVCount_def)
  have e: "fp_ExtraKV default_params = Map.empty" by (simp add: default_params_def)
  have c: "or_default 0 4096 (fp_ContextLength default_params) = 4096"
    by (simp add: or_default_def default_params_def)
  show ?thesis
    using bs fixture_metadata_roundtrip [OF bs default_order_dom n default_kv_ok refl e] c
    by metis
qed

text \<open>
  A string longer than the limit is reported as \<^const>\<open>ErrHeaderTooLarge\<close> when it is the value
  of a key, but as \<^const>\<open>ErrCorruptHeader\<close> when it is an element of an array: the element loop
  formats the inner error with a verb that does not wrap it.
\<close>

theorem oversized_string_error:
  assumes "maxStringLength < n" "n < 2 ^ 64" "length k \<le> maxStringLength"
  shows "readKV False \<lparr>pending = writeString k @ writeType TypeString @ le_bytes 8 n @ t, broken = b\<rparr>
           = Inl ErrHeaderTooLarge \<and>
         readKV False \<lparr>pending = writeString k @ writeType TypeArray @ writeType TypeString @
             le_bytes 8 1 @ le_bytes 8 n @ t, broken = b\<rparr>
           = Inl ErrCorruptHeader"
proof -
  have str: "readString \<lparr>pending = le_bytes 8 n @ t, broken = b\<rparr> False = Inl ErrHeaderTooLarge"
    using assms by (simp add: readString_def read_len_def unsigned_of_nat take_bit_eq_mod)
  then have top: "readKV False \<lparr>pending = writeString k @ writeType TypeString @ le_bytes 8 n @ t, broken = b\<rparr>
           = Inl ErrHeaderTooLarge"
    using assms(3)
    by (simp add: readKV_readTyped readString_writeString readTyped_type readValue_switch
        readSwitch_types wrap_kv_err_def)
  have "readValue_left 7 r TypeString False = res_bind (readString r False) (\<lambda>(s, r'). Inr (VString s, r'))"
    for r by (simp add: eval_nat_numeral readSwitch_types)
  with str have "readKV False \<lparr>pending = writeString k @ writeType TypeArray @ writeType TypeString @
             le_bytes 8 1 @ le_bytes 8 n @ t, broken = b\<rparr>
           = Inl ErrCorruptHeader"
    using assms(3)
    by (simp add: readKV_readTyped readString_writeString readTyped_type readValue_switch
        readSwitch_types wrap_kv_err_def readArray_def read_writeType read_len_def maxArrayLength_def)
  with top show ?thesis by blast
qed

theorem oversized_string_error_witness:
  "readKV False \<lparr>pending = writeString ''k'' @ writeType TypeString @ le_bytes 8 (2 ^ 30) @ [],
                 broken = False\<rparr> = Inl ErrHeaderTooLarge \<and>
   readKV False \<lparr>pending = writeString ''k'' @ writeType TypeArray @ writeType TypeString @
                   le_bytes 8 1 @ le_bytes 8 (2 ^ 30) @ [], broken = False\<rparr> = Inl ErrCorruptHeader"
  by (rule oversized_string_error) (simp_all add: maxStringLength_def)

text \<open>
  Conversion of a float to the number of a metadata field: it is exact (the truncated value),
  except that \<open>2^64\<close> passes the range test although it does not fit, and the result is then
  whatever the Go implementation's out-of-range conversion yields.
\<close>

theorem toUint64_float:
  assumes "toUint64 ovf (VFloat64 b) = (n, True)"
  shows "\<exists>neg m e. ieee_of_bits 11 52 (unat b) = FFin neg m e \<and> (neg \<longrightarrow> m = 0) \<and>
           (unat n = float_trunc m e \<or> float_trunc m e = 2 ^ 64 \<and> n = ovf)"
proof -
  from assms obtain neg m e where f: "ieee_of_bits 11 52 (unat b) = FFin neg m e"
      and neg: "neg \<longrightarrow> m = 0" and le: "float_le_2_64 m e"
      and n: "n = (if float_trunc m e < 2 ^ 64 then word_of_nat (float_trunc m e) else ovf)"
    by (auto simp: float_to_uint64_def split: ieee.splits if_splits)
  have "unat n = float_trunc m e \<or> float_trunc m e = 2 ^ 64 \<and> n = ovf"
    using n float_trunc_bound [OF le] by (auto simp: unsigned_of_nat take_bit_eq_mod)
  with f neg show ?thesis by blast
qed

theorem toUint64_float_witness:
  "toUint64 7 (VFloat64 0x43F0000000000000) = (7, True) \<and>
   (\<exists>neg m e. ieee_of_bits 11 52 (unat (0x43F0000000000000 :: u64)) = FFin neg m e \<and>
      (unat (7 :: u64) = float_trunc m e \<or> float_trunc m e = 2 ^ 64))"
proof -
  have h: "toUint64 7 (VFloat64 0x43F0000000000000) = (7, True)"
    by (simp add: float_to_uint64_def ieee_of_bits_def float_le_2_64_def float_trunc_def Let_def)
  show ?thesis using h toUint64_float [OF h] by blast
qed

text \<open>
  The quantization code is looked up by its low 32 bits: a code that agrees with a known file
  type in those bits is reported under that type's name, however large it is.
\<close>

theorem file_type_low_bits:
  assumes "FileTypeNames (ucast code) = Some name"
  shows "file_type_quant ovf (VUint64 code) = name"
  using assms by (simp add: file_type_quant_def)

theorem file_type_low_bits_witness: "file_type_quant 0 (VUint64 (2 ^ 32 + 15)) = ''Q4_K_M''"
  by (rule file_type_low_bits) (simp add: FileTypeNames_def FileTypeTable_def)

end
