(* ===== verification/Sha256.thy ===== *)
theory Sha256
  imports Go_Prelude
begin

text \<open>
  The function \<open>sha256.Sum256\<close> of Go's \<open>crypto/sha256\<close> (FIPS 180-4) and the verb \<open>%x\<close> of
  \<open>fmt\<close>, which the sources use for Model digests and hardware fingerprints.
\<close>

unbundle bit_operations_syntax

definition rotr :: "nat \<Rightarrow> u32 \<Rightarrow> u32" where
  "rotr n x = word_rotr n x"

text \<open>
  The constants of the standard: the first 32 bits of the fractional parts of the cube roots of
  the first 64 primes, and of the square roots of the first 8. \<open>root_bits\<close> computes the integer
  part of a root bit by bit.
\<close>

fun root_bits :: "nat \<Rightarrow> nat \<Rightarrow> int \<Rightarrow> int \<Rightarrow> int" where
  "root_bits e 0 n acc = acc"
| "root_bits e (Suc k) n acc =
     root_bits e k n (if (acc + 2 ^ k) ^ e \<le> n then acc + 2 ^ k else acc)"

definition root_fraction :: "nat \<Rightarrow> int \<Rightarrow> u32" where
  "root_fraction e p = word_of_int (root_bits e 37 (p * 2 ^ (32 * e)) 0)"

fun next_primes :: "nat \<Rightarrow> int list \<Rightarrow> int \<Rightarrow> int list" where
  "next_primes 0 ps n = []"
| "next_primes (Suc k) ps n =
     (if list_all (\<lambda>p. n mod p \<noteq> 0) ps then n # next_primes k (n # ps) (n + 1)
      else next_primes k ps (n + 1))"

definition sha_primes :: "int list" where
  "sha_primes = next_primes 310 [] 2"

definition sha_K :: "u32 list" where
  "sha_K = map (root_fraction 3) sha_primes"

definition sha_H0 :: "u32 list" where
  "sha_H0 = map (root_fraction 2) (take 8 sha_primes)"

definition be_word :: "string \<Rightarrow> u32" where
  "be_word bs = foldl (\<lambda>w c. 256 * w + of_char c) 0 bs"

fun be_bytes :: "nat \<Rightarrow> int \<Rightarrow> string" where
  "be_bytes 0 v = []"
| "be_bytes (Suc k) v = be_bytes k (v div 256) @ [char_of v]"

fun sha_words :: "nat \<Rightarrow> string \<Rightarrow> u32 list" where
  "sha_words 0 bs = []"
| "sha_words (Suc n) bs = be_word (take 4 bs) # sha_words n (drop 4 bs)"

text \<open>The message schedule, kept with its newest word first.\<close>

fun sha_schedule :: "nat \<Rightarrow> u32 list \<Rightarrow> u32 list" where
  "sha_schedule 0 w = rev w"
| "sha_schedule (Suc n) w =
     (let w15 = w ! 14; w2 = w ! 1;
          s0 = rotr 7 w15 XOR rotr 18 w15 XOR drop_bit 3 w15;
          s1 = rotr 17 w2 XOR rotr 19 w2 XOR drop_bit 10 w2
      in sha_schedule n ((w ! 15 + s0 + w ! 6 + s1) # w))"

fun sha_round :: "u32 list \<Rightarrow> u32 \<times> u32 \<Rightarrow> u32 list" where
  "sha_round [a, b, c, d, e, f, g, h] (k, w) =
     (let t1 = h + (rotr 6 e XOR rotr 11 e XOR rotr 25 e) + ((e AND f) XOR (NOT e AND g)) + k + w;
          t2 = (rotr 2 a XOR rotr 13 a XOR rotr 22 a) + ((a AND b) XOR (a AND c) XOR (b AND c))
      in [t1 + t2, a, b, c, d + t1, e, f, g])"
| "sha_round st _ = st"

definition sha_block :: "u32 list \<Rightarrow> string \<Rightarrow> u32 list" where
  "sha_block hs bs =
     map2 (+) hs (foldl sha_round hs (zip sha_K (sha_schedule 48 (rev (sha_words 16 bs)))))"

definition sha_pad :: "string \<Rightarrow> string" where
  "sha_pad m =
     m @ char_of (0x80 :: nat) # replicate ((119 - length m mod 64) mod 64) (char_of (0 :: nat))
       @ be_bytes 8 (8 * int (length m))"

fun sha_blocks :: "nat \<Rightarrow> u32 list \<Rightarrow> string \<Rightarrow> u32 list" where
  "sha_blocks 0 hs bs = hs"
| "sha_blocks (Suc n) hs bs = sha_blocks n (sha_block hs (take 64 bs)) (drop 64 bs)"

definition Sum256 :: "string \<Rightarrow> string" where
  "Sum256 m =
     (let p = sha_pad m
      in concat (map (\<lambda>w. be_bytes 4 (uint w)) (sha_blocks (length p div 64) sha_H0 p)))"

definition hex_digit :: "nat \<Rightarrow> char" where
  "hex_digit d = (if d < 10 then char_of (d + 48) else char_of (d + 87))"

definition hex_string :: "string \<Rightarrow> string" where
  "hex_string bs =
     concat (map (\<lambda>c. [hex_digit (of_char c div 16), hex_digit (of_char c mod 16)]) bs)"

lemma sha_pad_blocks: "length (sha_pad m) mod 64 = 0"
proof -
  have len: "length (be_bytes k v) = k" for k v
    by (induction k arbitrary: v) simp_all
  have "(length m + (9 + (119 - length m mod 64) mod 64)) mod 64 =
        (length m mod 64 + (9 + (119 - length m mod 64))) mod 64"
    by (metis (no_types, opaque_lifting) mod_add_left_eq mod_add_right_eq)
  also have "\<dots> = 128 mod 64"
    by (simp add: less_imp_le_nat trans_le_add1)
  finally show ?thesis by (simp add: sha_pad_def len)
qed

text \<open>The test vector of the standard for the message ``abc''.\<close>

lemma Sum256_abc:
  "hex_string (Sum256 ''abc'') =
     ''ba7816bf8f01cfea414140de5dae2223b00361a396177a9cb410ff61f20015ad''"
  by code_simp

end
