(* ===== verification/Discovery.thy ===== *)
theory Discovery
  imports Gguf Sha256
begin

text \<open>
  Model discovery, \<open>src/internal/supervisor/discovery.go\<close>: from the files a directory walk
  reports to the sorted list of Models. The file system is an argument: what the walk of each
  directory reports, in its order, and what opening a file yields. The regular expressions are
  written out as the functions that decide them.
\<close>

section \<open>Data\<close>

record Model =
  m_ID :: string
  m_Name :: string
  m_Tag :: string
  m_Path :: string
  m_Size :: int
  m_ModTime :: int
  m_Digest :: string
  m_Architecture :: string
  m_ContextLength :: u64
  m_BlockCount :: u64
  m_Quantization :: string

record FileInfo =
  fi_Size :: int
  fi_ModTime :: int

text \<open>What \<open>os.Open\<close> and the \<open>Stat\<close> of the opened file yield.\<close>

datatype open_result = OpenFails | StatFails | Opened FileInfo reader

text \<open>
  One call of the walk's callback: the path, the entry's name and kind, whether the walk reports
  an access error, whether the context is cancelled at that moment, and the file.
\<close>

record visit =
  v_path :: string
  v_name :: string
  v_isdir :: bool
  v_err :: bool
  v_cancelled :: bool
  v_open :: open_result

text \<open>A directory argument: whether \<open>os.Stat\<close> says it does not exist, and its walk.\<close>

record scan_fs =
  missing :: "string \<Rightarrow> bool"
  walk :: "string \<Rightarrow> visit list"

section \<open>The regular expressions\<close>

definition is_sep :: "char \<Rightarrow> bool" where
  "is_sep c \<longleftrightarrow> c = CHR ''.'' \<or> c = CHR ''_'' \<or> c = CHR ''-''"

definition no_newline :: "string \<Rightarrow> bool" where
  "no_newline s \<longleftrightarrow> CHR 0x0A \<notin> set s"

definition all_digits :: "string \<Rightarrow> bool" where
  "all_digits s \<longleftrightarrow> list_all is_digit s"

text \<open>
  \<open>(?i)^(.+?)[._-]([0-9]{5})-of-([0-9]{5})$\<close>: the part after the stem is 15 bytes long.
\<close>

definition shardRegex1 :: "string \<Rightarrow> (string \<times> string \<times> string) option" where
  "shardRegex1 s =
     (let n = length s; stem = take (n - 15) s; rest = drop (n - 15) s;
          d1 = take 5 (drop 1 rest); mid = take 4 (drop 6 rest); d2 = drop 10 rest
      in if n > 15 \<and> no_newline stem \<and> is_sep (rest ! 0) \<and> all_digits d1 \<and>
            EqualFold mid ''-of-'' \<and> all_digits d2
         then Some (stem, d1, d2) else None)"

text \<open>\<open>(?i)^(.+?)[._-]([0-9]{5})$\<close>\<close>

definition shardRegex2 :: "string \<Rightarrow> (string \<times> string) option" where
  "shardRegex2 s =
     (let n = length s; stem = take (n - 6) s; rest = drop (n - 6) s
      in if n > 6 \<and> no_newline stem \<and> is_sep (rest ! 0) \<and> all_digits (drop 1 rest)
         then Some (stem, drop 1 rest) else None)"

text \<open>
  \<open>(?i)^(.+?)[._-]part-?([0-9]+)(?:-of-([0-9]+))?$\<close>: what must follow the stem, giving the
  digits of the second group, and the search for the shortest stem.
\<close>

definition of_suffix :: "string \<Rightarrow> bool" where
  "of_suffix w \<longleftrightarrow> EqualFold (take 4 w) ''-of-'' \<and> drop 4 w \<noteq> [] \<and> all_digits (drop 4 w)"

definition part_suffix :: "string \<Rightarrow> string option" where
  "part_suffix s =
     (case s of
        [] \<Rightarrow> None
      | sep # t \<Rightarrow>
          (let u = drop 4 t;
               v = (case u of c # w \<Rightarrow> if c = CHR ''-'' then w else u | [] \<Rightarrow> []);
               ds = takeWhile is_digit v; w = dropWhile is_digit v
           in if is_sep sep \<and> EqualFold (take 4 t) ''part'' \<and> ds \<noteq> [] \<and> (w = [] \<or> of_suffix w)
              then Some ds else None))"

fun find_part :: "string \<Rightarrow> string \<Rightarrow> (string \<times> string) option" where
  "find_part stem s =
     (case part_suffix s of
        Some ds \<Rightarrow> Some (stem, ds)
      | None \<Rightarrow>
          (case s of
             [] \<Rightarrow> None
           | c # t \<Rightarrow> if c = CHR 0x0A then None else find_part (stem @ [c]) t))"

declare find_part.simps [simp del]

definition shardRegex3 :: "string \<Rightarrow> (string \<times> string) option" where
  "shardRegex3 s =
     (case s of
        [] \<Rightarrow> None
      | c # t \<Rightarrow> if c = CHR 0x0A then None else find_part [c] t)"

text \<open>
  \<open>(?i)[._-]([i]?q[0-9]_[a-z0-9_]+|q[0-9]_[0-9]|f16|f32)$\<close>: whether a suffix matches, and the
  position of the leftmost match.
\<close>

definition is_word_char :: "char \<Rightarrow> bool" where
  "is_word_char c \<longleftrightarrow>
     is_digit c \<or> c = CHR ''_'' \<or> (97 \<le> (of_char c :: nat) \<and> (of_char c :: nat) \<le> 122)"

definition quant_body :: "string \<Rightarrow> bool" where
  "quant_body t \<longleftrightarrow>
     (case (case t of c # u \<Rightarrow> if c = CHR ''i'' then u else t | [] \<Rightarrow> []) of
        q # d # us # rest \<Rightarrow>
          q = CHR ''q'' \<and> is_digit d \<and> us = CHR ''_'' \<and> rest \<noteq> [] \<and> list_all is_word_char rest
      | _ \<Rightarrow> False) \<or>
     t = ''f16'' \<or> t = ''f32''"

definition quant_suffix :: "string \<Rightarrow> bool" where
  "quant_suffix s \<longleftrightarrow> (case s of [] \<Rightarrow> False | sep # t \<Rightarrow> is_sep sep \<and> quant_body (ToLower t))"

fun genericQuantRegex :: "string \<Rightarrow> nat option" where
  "genericQuantRegex [] = None"
| "genericQuantRegex (c # s) =
     (if quant_suffix (c # s) then Some 0 else map_option Suc (genericQuantRegex s))"

section \<open>Inspecting one file\<close>

definition isProjectorArch :: "string \<Rightarrow> (string \<rightharpoonup> gval) \<Rightarrow> bool" where
  "isProjectorArch arch kv \<longleftrightarrow>
     arch \<in> {''clip'', ''siglip'', ''mmproj'', ''projector'', ''adapter''} \<or>
     HasSuffix arch ''-proj'' \<or>
     (case kv ''general.type'' of
        Some (VString genType) \<Rightarrow> ToLower genType \<in> {''projector'', ''mmproj'', ''adapter''}
      | _ \<Rightarrow> False)"

fun toInt :: "gval \<Rightarrow> int \<times> bool" where
  "toInt (VUint8 n) = (uint n, True)"
| "toInt (VUint16 n) = (uint n, True)"
| "toInt (VUint32 n) = (uint n, True)"
| "toInt (VUint64 n) = (sint n, True)"
| "toInt (VInt64 n) = (sint n, True)"
| "toInt _ = (0, False)"

text \<open>The shard number of the metadata, 1-based, or -1; \<open>no + 1\<close> wraps as Go's \<open>int\<close> does.\<close>

definition metaShardNo :: "(string \<rightharpoonup> gval) \<Rightarrow> int" where
  "metaShardNo kv =
     (case kv ''split.no'' of
        Some val \<Rightarrow> (case toInt val of (no, True) \<Rightarrow> wrap64 (no + 1) | (_, False) \<Rightarrow> -1)
      | None \<Rightarrow>
          (case kv ''general.split.no'' of
             Some val \<Rightarrow> (case toInt val of (no, True) \<Rightarrow> wrap64 (no + 1) | (_, False) \<Rightarrow> -1)
           | None \<Rightarrow> -1))"

definition stem_shard :: "string \<Rightarrow> bool \<times> int \<times> string" where
  "stem_shard stem =
     (case shardRegex1 stem of
        Some (p, d1, _) \<Rightarrow> (True, fst (Atoi d1), p)
      | None \<Rightarrow>
          (case shardRegex3 stem of
             Some (p, ds) \<Rightarrow> (True, fst (Atoi ds), p)
           | None \<Rightarrow> (False, 0, stem)))"

definition parseShardInfo :: "string \<Rightarrow> (string \<rightharpoonup> gval) \<Rightarrow> bool \<times> int \<times> string" where
  "parseShardInfo filename kv =
     (let stem = TrimSuffix filename (Ext filename);
          (isShard, shardNum, cleanStem) = stem_shard stem;
          no = metaShardNo kv
      in if no > 0
         then (True, no,
               if cleanStem = stem
               then (case shardRegex2 stem of Some (p, _) \<Rightarrow> p | None \<Rightarrow> cleanStem)
               else cleanStem)
         else (isShard, shardNum, cleanStem))"

text \<open>The two stripping steps of \<open>deriveNameAndTag\<close>, then its defaults and clean-up.\<close>

definition strip_meta_quant :: "string \<Rightarrow> string \<Rightarrow> string" where
  "strip_meta_quant name metaQuant =
     (if metaQuant \<noteq> [] \<and> metaQuant \<noteq> ''unknown'' then
        (let qLen = length metaQuant; nLen = length name
         in if nLen > qLen + 1 \<and> is_sep (name ! (nLen - qLen - 1)) \<and>
               EqualFold (drop (nLen - qLen) name) metaQuant
            then take (nLen - qLen - 1) name else name)
      else name)"

definition strip_generic_quant :: "string \<Rightarrow> string \<Rightarrow> string \<times> string" where
  "strip_generic_quant name tag =
     (case genericQuantRegex name of
        None \<Rightarrow> (name, tag)
      | Some i \<Rightarrow>
          (take i name,
           if tag = [] \<or> tag = ''unknown''
           then (let extracted = TrimLeft (drop i name) ''.-_''
                 in if extracted \<noteq> [] then ToLower extracted else tag)
           else tag))"

definition deriveNameAndTag :: "string \<Rightarrow> string \<Rightarrow> string \<times> string" where
  "deriveNameAndTag stemWithoutShard metaQuant =
     (let (name, tag) =
            strip_generic_quant (strip_meta_quant stemWithoutShard metaQuant) (ToLower metaQuant);
          tag' = (if tag = [] \<or> tag = ''unknown'' then ''unknown'' else tag);
          name' = TrimRight (ToLower name) ''.-_''
      in (if name' = [] then ''model'' else name', tag'))"

definition computeDigest :: "Model \<Rightarrow> string" where
  "computeDigest m =
     ''sha256:'' @ hex_string (Sum256 (m_ID m @ '':'' @ m_Path m @ '':'' @ Itoa (m_Size m)))"

text \<open>
  \<open>inspectFile\<close>: \<^const>\<open>Inl\<close> where it returns an error, \<open>Inr None\<close> where it skips the file.
\<close>

datatype inspect_err = OpenErr | StatErr | HeaderErr gguf_err

definition name_is_projector :: "string \<Rightarrow> bool" where
  "name_is_projector base \<longleftrightarrow>
     Contains (ToLower base) ''mmproj'' \<or> Contains (ToLower base) ''projector''"

definition build_model :: "string \<Rightarrow> string \<Rightarrow> FileInfo \<Rightarrow> Header \<Rightarrow> Model" where
  "build_model path stemWithoutShard info hdr =
     (let (name, tag) = deriveNameAndTag stemWithoutShard (Quantization (Meta hdr));
          m = \<lparr>m_ID = name @ '':'' @ tag, m_Name = name, m_Tag = tag, m_Path = path,
               m_Size = fi_Size info, m_ModTime = fi_ModTime info, m_Digest = [],
               m_Architecture = Architecture (Meta hdr),
               m_ContextLength = ContextLength (Meta hdr),
               m_BlockCount = BlockCount (Meta hdr),
               m_Quantization = Quantization (Meta hdr)\<rparr>
      in m\<lparr>m_Digest := computeDigest m\<rparr>)"

definition inspectFile :: "u64 \<Rightarrow> string \<Rightarrow> string \<Rightarrow> open_result \<Rightarrow> (inspect_err, Model option) res" where
  "inspectFile ovf path base file =
     (if name_is_projector base then Inr None
      else (case file of
         OpenFails \<Rightarrow> Inl OpenErr
       | StatFails \<Rightarrow> Inl StatErr
       | Opened info r \<Rightarrow>
           res_bind (map_err HeaderErr (ReadHeader ovf r)) (\<lambda>(hdr, _).
             if isProjectorArch (ToLower (Architecture (Meta hdr))) (KV hdr) then Inr None
             else (let (isShard, shardNum, stemWithoutShard) = parseShardInfo base (KV hdr)
                   in if isShard \<and> shardNum > 1 then Inr None
                      else Inr (Some (build_model path stemWithoutShard info hdr))))))"

section \<open>Scanning directories\<close>

text \<open>
  The map \<open>discovered\<close>, as an association list in insertion order; a Model whose ID is already
  there is dropped.
\<close>

definition record_model :: "(string \<times> Model) list \<Rightarrow> Model \<Rightarrow> (string \<times> Model) list" where
  "record_model disc m = (if map_of disc (m_ID m) = None then disc @ [(m_ID m, m)] else disc)"

text \<open>The walk: the callback ends it with an error when the context is cancelled.\<close>

fun walk_dir :: "u64 \<Rightarrow> visit list \<Rightarrow> (string \<times> Model) list \<Rightarrow> (string \<times> Model) list" where
  "walk_dir ovf [] disc = disc"
| "walk_dir ovf (v # vs) disc =
     (if v_err v then walk_dir ovf vs disc
      else if v_cancelled v then disc
      else if v_isdir v then walk_dir ovf vs disc
      else if \<not> EqualFold (Ext (v_path v)) ''.gguf'' then walk_dir ovf vs disc
      else (case inspectFile ovf (v_path v) (v_name v) (v_open v) of
              Inl _ \<Rightarrow> walk_dir ovf vs disc
            | Inr None \<Rightarrow> walk_dir ovf vs disc
            | Inr (Some m) \<Rightarrow> walk_dir ovf vs (record_model disc m)))"

fun walk_dirs :: "u64 \<Rightarrow> scan_fs \<Rightarrow> string list \<Rightarrow> (string \<times> Model) list \<Rightarrow> (string \<times> Model) list" where
  "walk_dirs ovf fs [] disc = disc"
| "walk_dirs ovf fs (dir # dirs) disc =
     (if dir = [] then walk_dirs ovf fs dirs disc
      else if missing fs dir then walk_dirs ovf fs dirs disc
      else walk_dirs ovf fs dirs (walk_dir ovf (walk fs dir) disc))"

definition discoverModels :: "u64 \<Rightarrow> scan_fs \<Rightarrow> string list \<Rightarrow> Model list" where
  "discoverModels ovf fs dirs = sort_key m_ID (map snd (walk_dirs ovf fs dirs []))"

section \<open>Conventional directories\<close>

fun firstEnvOrDefault :: "(string \<Rightarrow> string) \<Rightarrow> string \<Rightarrow> string list \<Rightarrow> string" where
  "firstEnvOrDefault getenv defaultPath [] = defaultPath"
| "firstEnvOrDefault getenv defaultPath (env # envs) =
     (if getenv env \<noteq> [] then getenv env else firstEnvOrDefault getenv defaultPath envs)"

text \<open>\<open>home\<close> is \<^const>\<open>None\<close> when \<open>os.UserHomeDir\<close> fails; \<open>goos\<close> is \<open>runtime.GOOS\<close>.\<close>

definition ConventionalModelDirs ::
  "string option \<Rightarrow> (string \<Rightarrow> string) \<Rightarrow> string \<Rightarrow> string list"
where
  "ConventionalModelDirs home_dir getenv goos =
     (case home_dir of
        None \<Rightarrow> []
      | Some home \<Rightarrow>
          (let cacheRoot = firstEnvOrDefault getenv (path_Join [home, ''.cache'']) [''XDG_CACHE_HOME''];
               dataRoot = firstEnvOrDefault getenv (path_Join [home, ''.local'', ''share''])
                            [''XDG_DATA_HOME''];
               hf0 = firstEnvOrDefault getenv (path_Join [cacheRoot, ''huggingface'', ''hub''])
                       [''HF_HOME'', ''HUGGINGFACE_HUB_CACHE''];
               hf = (if getenv ''HF_HOME'' \<noteq> [] \<and> hf0 = getenv ''HF_HOME''
                     then path_Join [hf0, ''hub''] else hf0)
           in [hf, path_Join [home, ''.lmstudio'', ''models''],
               path_Join [cacheRoot, ''lm-studio'', ''models''],
               path_Join [cacheRoot, ''llama.cpp'']] @
              (if goos = ''darwin'' then
                 [path_Join [home, ''Library'', ''Application Support'', ''nomic.ai'', ''GPT4All'']]
               else if goos = ''windows'' then
                 (if getenv ''LOCALAPPDATA'' \<noteq> []
                  then [path_Join [getenv ''LOCALAPPDATA'', ''nomic.ai'', ''GPT4All'']] else [])
               else [path_Join [dataRoot, ''nomic.ai'', ''GPT4All'']])))"

section \<open>Specification: which files a scan accepts\<close>

text \<open>The Model a visited file stands for, if it is served.\<close>

definition visit_model :: "u64 \<Rightarrow> visit \<Rightarrow> Model option" where
  "visit_model ovf v =
     (if v_isdir v \<or> \<not> EqualFold (Ext (v_path v)) ''.gguf'' then None
      else (case inspectFile ovf (v_path v) (v_name v) (v_open v) of
              Inr (Some m) \<Rightarrow> Some m | _ \<Rightarrow> None))"

text \<open>The accepted files of one walk, up to a cancellation, and of all walks, in order.\<close>

definition accepted_in :: "u64 \<Rightarrow> visit list \<Rightarrow> Model list" where
  "accepted_in ovf vs =
     List.map_filter (visit_model ovf)
       (takeWhile (\<lambda>v. \<not> v_cancelled v) (filter (\<lambda>v. \<not> v_err v) vs))"

definition accepted :: "u64 \<Rightarrow> scan_fs \<Rightarrow> string list \<Rightarrow> Model list" where
  "accepted ovf fs dirs =
     concat (map (\<lambda>d. accepted_in ovf (walk fs d)) (filter (\<lambda>d. d \<noteq> [] \<and> \<not> missing fs d) dirs))"

text \<open>What every served Model satisfies.\<close>

definition model_wf :: "Model \<Rightarrow> bool" where
  "model_wf m \<longleftrightarrow>
     m_ID m = m_Name m @ '':'' @ m_Tag m \<and> m_Name m \<noteq> [] \<and> \<not> is_sep (last (m_Name m)) \<and>
     ToLower (m_Name m) = m_Name m \<and> m_Tag m \<noteq> [] \<and> ToLower (m_Tag m) = m_Tag m \<and>
     m_Digest m = computeDigest m"

definition disc_ok :: "(string \<times> Model) list \<Rightarrow> bool" where
  "disc_ok disc \<longleftrightarrow> distinct (map fst disc) \<and> list_all (\<lambda>(k, m). k = m_ID m) disc"

section \<open>Lemmas: names and tags\<close>

lemma of_char_char_of_nat: "n < 256 \<Longrightarrow> of_char (char_of n) = (n :: nat)"
  by simp

lemma lower_char_idem [simp]: "lower_char (lower_char c) = lower_char c"
proof -
  define n where "n = (of_char c :: nat)"
  have "lower_char c = (if 65 \<le> n \<and> n \<le> 90 then char_of (n + 32) else c)"
    by (simp add: lower_char_def n_def)
  moreover have "lower_char (char_of (n + 32)) = char_of (n + 32)" if "65 \<le> n" "n \<le> 90"
  proof -
    have "of_char (char_of (n + 32)) = n + 32" using that by simp
    then show ?thesis using that by (simp add: lower_char_def)
  qed
  ultimately show ?thesis by (auto simp: lower_char_def n_def)
qed

lemma ToLower_idem [simp]: "ToLower (ToLower s) = ToLower s"
  by (simp add: ToLower_def)

lemma ToLower_fixed_iff: "ToLower s = s \<longleftrightarrow> (\<forall>c \<in> set s. lower_char c = c)"
  by (simp add: ToLower_def map_idI) (metis map_idI map_eq_conv list.map_id0 id_apply)

lemma TrimRight_prefix: "\<exists>t. s = TrimRight s cs @ t \<and> set t \<subseteq> set cs"
proof -
  let ?P = "\<lambda>c. c \<in> set cs"
  have "rev s = takeWhile ?P (rev s) @ dropWhile ?P (rev s)" by simp
  then have "s = rev (dropWhile ?P (rev s)) @ rev (takeWhile ?P (rev s))"
    by (metis rev_append rev_rev_ident)
  then show ?thesis
    by (metis TrimRight_def set_rev set_takeWhileD subsetI)
qed

lemma TrimRight_last: "TrimRight s cs \<noteq> [] \<Longrightarrow> last (TrimRight s cs) \<notin> set cs"
  using hd_dropWhile [of "\<lambda>c. c \<in> set cs" "rev s"] by (simp add: TrimRight_def last_rev)

lemma set_TrimRight: "set (TrimRight s cs) \<subseteq> set s"
  by (metis TrimRight_prefix set_append sup_ge1)

lemma is_sep_set: "is_sep c \<longleftrightarrow> c \<in> set ''.-_''"
  by (auto simp: is_sep_def)

lemma strip_generic_quant_tag:
  "ToLower tag = tag \<Longrightarrow> ToLower (snd (strip_generic_quant name tag)) = snd (strip_generic_quant name tag)"
  by (auto simp: strip_generic_quant_def Let_def split: option.splits)

lemma ToLower_TrimRight: "ToLower (TrimRight (ToLower n) cs) = TrimRight (ToLower n) cs"
proof -
  have "\<forall>c \<in> set (ToLower n). lower_char c = c" by (auto simp: ToLower_def)
  then show ?thesis using set_TrimRight [of "ToLower n" cs] unfolding ToLower_fixed_iff by blast
qed

lemma deriveNameAndTag_wf:
  assumes "deriveNameAndTag stem q = (name, tag)"
  shows "name \<noteq> [] \<and> \<not> is_sep (last name) \<and> ToLower name = name \<and> tag \<noteq> [] \<and> ToLower tag = tag"
proof -
  let ?nt = "strip_generic_quant (strip_meta_quant stem q) (ToLower q)"
  let ?n = "TrimRight (ToLower (fst ?nt)) ''.-_''"
  have name: "name = (if ?n = [] then ''model'' else ?n)"
    and tag: "tag = (if snd ?nt = [] \<or> snd ?nt = ''unknown'' then ''unknown'' else snd ?nt)"
    using assms by (auto simp: deriveNameAndTag_def Let_def case_prod_unfold)
  have low: "ToLower ''model'' = ''model''" "ToLower ''unknown'' = ''unknown''"
    by (simp_all add: ToLower_def lower_char_def)
  have "\<not> is_sep (last name)"
    using TrimRight_last [of "ToLower (fst ?nt)" "''.-_''"] unfolding name is_sep_set by simp
  moreover have "ToLower name = name"
    unfolding name using low(1) ToLower_TrimRight by simp
  moreover have "ToLower tag = tag"
    unfolding tag using low(2) strip_generic_quant_tag [of "ToLower q" "strip_meta_quant stem q"] by simp
  ultimately show ?thesis by (simp add: name tag)
qed

section \<open>Lemmas: shards\<close>

lemma Ext_gguf [simp]: "Ext (s @ ''.gguf'') = ''.gguf''"
  by (simp add: Ext_def)

lemma TrimSuffix_append [simp]: "TrimSuffix (s @ e) e = s"
  by (simp add: TrimSuffix_def HasSuffix_def)

lemma shardRegex1_match:
  assumes "p \<noteq> []" "no_newline p" "is_sep c" "length d1 = 5" "all_digits d1"
    "length d2 = 5" "all_digits d2"
  shows "shardRegex1 (p @ c # d1 @ ''-of-'' @ d2) = Some (p, d1, d2)"
  using assms by (simp add: shardRegex1_def Let_def EqualFold_def)

lemma digits_val_bound: "digits_val ds < 10 ^ length ds" if "all_digits ds"
  using that
proof (induction ds rule: rev_induct)
  case Nil
  then show ?case by (simp add: digits_val_def)
next
  case (snoc c ds)
  then have "digits_val ds < 10 ^ length ds" by (simp add: all_digits_def)
  moreover have "digit_val c < 10"
    using snoc.prems by (auto simp: all_digits_def digit_val_def is_digit_def)
  ultimately show ?case by (simp add: digits_val_def)
qed

lemma Atoi_digits:
  assumes "all_digits ds" "ds \<noteq> []" "length ds \<le> 18"
  shows "Atoi ds = (int (digits_val ds), True)"
proof -
  obtain c t where ds: "ds = c # t" using assms(2) by (cases ds) auto
  then have c: "is_digit c" using assms(1) by (simp add: all_digits_def)
  then have nc: "c \<noteq> CHR ''-''" "c \<noteq> CHR ''+''" by (auto simp: is_digit_def)
  have "(10::nat) ^ length ds \<le> 10 ^ 18" using assms(3) by (rule power_increasing) simp
  with digits_val_bound [OF assms(1)] have "digits_val ds < 10 ^ 18" by linarith
  then have "int (digits_val ds) \<le> max_int64" by (simp add: max_int64_def)
  with assms(1) nc show ?thesis
    by (simp add: Atoi_def ds all_digits_def Let_def)
qed

lemma parseShardInfo_shard:
  assumes "p \<noteq> []" "no_newline p" "is_sep c" "length d1 = 5" "all_digits d1"
    "length d2 = 5" "all_digits d2"
  shows "parseShardInfo ((p @ c # d1 @ ''-of-'' @ d2) @ ''.gguf'') kv =
     (True, if metaShardNo kv > 0 then metaShardNo kv else int (digits_val d1), p)"
proof -
  have "Atoi d1 = (int (digits_val d1), True)"
    using assms(4,5) by (intro Atoi_digits) auto
  moreover have "p \<noteq> p @ c # d1 @ ''-of-'' @ d2" by simp
  ultimately show ?thesis
    unfolding parseShardInfo_def Ext_gguf TrimSuffix_append
    by (simp add: stem_shard_def shardRegex1_match [OF assms, simplified] Let_def)
qed

section \<open>Lemmas: the scan\<close>

lemma walk_dir_accepted: "walk_dir ovf vs disc = foldl record_model disc (accepted_in ovf vs)"
  by (induction ovf vs disc rule: walk_dir.induct)
     (auto simp: accepted_in_def visit_model_def map_filter_simps split: sum.splits option.splits)

lemma walk_dirs_accepted:
  "walk_dirs ovf fs dirs disc = foldl record_model disc (accepted ovf fs dirs)"
  by (induction ovf fs dirs disc rule: walk_dirs.induct)
     (auto simp: accepted_def walk_dir_accepted)

lemma disc_ok_record: "disc_ok disc \<Longrightarrow> disc_ok (record_model disc m)"
  by (auto simp: disc_ok_def record_model_def map_of_eq_None_iff)

lemma disc_ok_foldl: "disc_ok disc \<Longrightarrow> disc_ok (foldl record_model disc ms)"
  by (induction ms arbitrary: disc) (simp_all add: disc_ok_record)

lemma map_of_record:
  "map_of (record_model disc m) k =
     (case map_of disc k of Some x \<Rightarrow> Some x | None \<Rightarrow> if k = m_ID m then Some m else None)"
  by (auto simp: record_model_def map_add_def split: option.splits)

lemma map_of_foldl_record:
  "map_of (foldl record_model disc ms) k =
     (case map_of disc k of Some x \<Rightarrow> Some x | None \<Rightarrow> find (\<lambda>m. m_ID m = k) ms)"
proof (induction ms arbitrary: disc)
  case Nil
  then show ?case by (simp split: option.splits)
next
  case (Cons m ms)
  then show ?case by (auto simp: map_of_record split: option.splits)
qed

lemma disc_ok_ids: "disc_ok disc \<Longrightarrow> map (m_ID \<circ> snd) disc = map fst disc"
  by (auto simp: disc_ok_def list_all_iff)

lemma scan_ok: "disc_ok (walk_dirs ovf fs dirs [])"
  unfolding walk_dirs_accepted by (rule disc_ok_foldl) (simp add: disc_ok_def)

lemma discoverModels_distinct: "distinct (map m_ID (discoverModels ovf fs dirs))"
proof -
  let ?d = "walk_dirs ovf fs dirs []"
  have "map m_ID (map snd ?d) = map fst ?d"
    using disc_ok_ids [OF scan_ok] by (simp only: map_map)
  then have "distinct (map m_ID (map snd ?d))"
    using scan_ok [of ovf fs dirs] unfolding disc_ok_def by metis
  moreover have "mset (map m_ID (discoverModels ovf fs dirs)) = mset (map m_ID (map snd ?d))"
    by (simp add: discoverModels_def image_mset.compositionality)
  ultimately show ?thesis by (metis mset_eq_imp_distinct_iff)
qed

lemma discoverModels_sorted: "sorted (map m_ID (discoverModels ovf fs dirs))"
  by (simp add: discoverModels_def)

lemma discoverModels_member:
  "m \<in> set (discoverModels ovf fs dirs) \<longleftrightarrow>
     find (\<lambda>m'. m_ID m' = m_ID m) (accepted ovf fs dirs) = Some m"
proof -
  let ?d = "walk_dirs ovf fs dirs []"
  have "m \<in> set (discoverModels ovf fs dirs) \<longleftrightarrow> (m_ID m, m) \<in> set ?d"
    using scan_ok [of ovf fs dirs]
    by (force simp: discoverModels_def disc_ok_def list_all_iff)
  also have "\<dots> \<longleftrightarrow> map_of ?d (m_ID m) = Some m"
    using scan_ok [of ovf fs dirs] by (simp add: disc_ok_def)
  also have "\<dots> \<longleftrightarrow> find (\<lambda>m'. m_ID m' = m_ID m) (accepted ovf fs dirs) = Some m"
    by (simp add: walk_dirs_accepted map_of_foldl_record)
  finally show ?thesis .
qed

lemma visit_model_inspect:
  assumes "visit_model ovf v = Some m"
  shows "EqualFold (Ext (v_path v)) ''.gguf''"
    and "inspectFile ovf (v_path v) (v_name v) (v_open v) = Inr (Some m)"
  using assms by (auto simp: visit_model_def split: if_splits sum.splits option.splits)

lemma inspectFile_Some:
  assumes "inspectFile ovf path base file = Inr (Some m)"
  shows "\<not> name_is_projector base \<and>
         (\<exists>info r hdr r' isShard shardNum stem.
            file = Opened info r \<and> ReadHeader ovf r = Inr (hdr, r') \<and>
            \<not> isProjectorArch (ToLower (Architecture (Meta hdr))) (KV hdr) \<and>
            parseShardInfo base (KV hdr) = (isShard, shardNum, stem) \<and>
            \<not> (isShard \<and> shardNum > 1) \<and> m = build_model path stem info hdr)"
  using assms unfolding inspectFile_def
  by (auto simp: res_simps Let_def split: if_splits open_result.splits prod.splits)

lemma computeDigest_upd [simp]: "computeDigest (m\<lparr>m_Digest := d\<rparr>) = computeDigest m"
  by (simp add: computeDigest_def)

lemma build_model_wf:
  "m = build_model path stem info hdr \<Longrightarrow> model_wf m \<and> m_Path m = path"
  using deriveNameAndTag_wf [of stem "Quantization (Meta hdr)"]
  by (cases "deriveNameAndTag stem (Quantization (Meta hdr))")
     (auto simp: build_model_def model_wf_def computeDigest_def Let_def)

lemma is_sep_lower: "is_sep (lower_char c) \<Longrightarrow> is_sep c"
proof (rule ccontr)
  assume sep: "is_sep (lower_char c)" and "\<not> is_sep c"
  define n where "n = (of_char c :: nat)"
  from sep \<open>\<not> is_sep c\<close> have n: "65 \<le> n" "n \<le> 90" "lower_char c = char_of (n + 32)"
    by (auto simp: lower_char_def n_def split: if_splits)
  then have "of_char (lower_char c) = n + 32" by simp
  moreover from sep have "of_char (lower_char c) \<in> {45, 46, 95 :: nat}"
    by (elim is_sep_def [THEN iffD1, elim_format] disjE) simp_all
  ultimately show False using n(1,2) by simp
qed

lemma TrimRight_noop: "s \<noteq> [] \<Longrightarrow> last s \<notin> set cs \<Longrightarrow> TrimRight s cs = s"
  by (cases s rule: rev_cases) (simp_all add: TrimRight_def)

text \<open>
  The interface discovery offers the Supervisor: a scan yields well-formed Models, ordered by
  their pairwise different IDs.
\<close>

locale model_source =
  fixes scan :: "'d \<Rightarrow> Model list"
  assumes scan_sorted: "sorted (map m_ID (scan d))"
    and scan_distinct: "distinct (map m_ID (scan d))"
    and scan_wf: "m \<in> set (scan d) \<Longrightarrow> model_wf m"
begin

lemma by_id:
  assumes "m \<in> set (scan d)" "m' \<in> set (scan d)" "m_ID m = m_ID m'"
  shows "m = m'"
  using scan_distinct [of d] assms by (auto simp: distinct_map inj_on_def)

lemma lookup_id:
  "map_of (map (\<lambda>m. (m_ID m, m)) (scan d)) i = Some m \<longleftrightarrow> m \<in> set (scan d) \<and> m_ID m = i"
proof -
  have "distinct (map fst (map (\<lambda>m. (m_ID m, m)) (scan d)))"
    using scan_distinct [of d] by (simp add: comp_def)
  then show ?thesis by (auto simp: map_of_eq_Some_iff)
qed

lemma strictly_sorted: "sorted_wrt (<) (map m_ID (scan d))"
  using scan_sorted [of d] scan_distinct [of d] by (simp add: strict_sorted_iff)

end

lemma accepted_visit:
  "m \<in> set (accepted ovf fs dirs) \<Longrightarrow>
     \<exists>d v. d \<in> set dirs \<and> v \<in> set (walk fs d) \<and> visit_model ovf v = Some m"
  by (auto simp: accepted_def accepted_in_def map_filter_def dest!: set_takeWhileD) blast

lemma discoverModels_accepted: "m \<in> set (discoverModels ovf fs dirs) \<Longrightarrow> m \<in> set (accepted ovf fs dirs)"
  unfolding discoverModels_member by (auto simp: find_Some_iff in_set_conv_nth)

lemma visit_model_wf: "visit_model ovf v = Some m \<Longrightarrow> model_wf m \<and> m_Path m = v_path v"
  using inspectFile_Some [OF visit_model_inspect(2)] build_model_wf by metis

interpretation disc: model_source "discoverModels ovf fs" for ovf fs
proof
  show "m \<in> set (discoverModels ovf fs d) \<Longrightarrow> model_wf m" for d m
    using discoverModels_accepted accepted_visit visit_model_wf by blast
qed (rule discoverModels_sorted discoverModels_distinct)+

section \<open>Properties\<close>

text \<open>
  C11. A scan serves each ID once, ordered by ID, and for each ID the Model of the first accepted
  file that has it, where ``first'' follows the order of the directories and of their walks.
\<close>

theorem discoverModels_correct:
  "sorted_wrt (<) (map m_ID (discoverModels ovf fs dirs)) \<and>
   (\<forall>m. m \<in> set (discoverModels ovf fs dirs) \<longleftrightarrow>
        find (\<lambda>m'. m_ID m' = m_ID m) (accepted ovf fs dirs) = Some m)"
  using disc.strictly_sorted discoverModels_member by blast

text \<open>
  C29. Every Model a scan serves comes from a file of a given directory that has the extension
  \<open>.gguf\<close> in any letter case, whose header parses, that is no projector by file name or by
  metadata and no shard after the first; and its ID is \<open>name:tag\<close> with a non-empty, lower-case
  name that does not end in a separator and a non-empty, lower-case tag, its digest that of its
  ID, path and size.
\<close>

theorem discoverModels_served:
  assumes "m \<in> set (discoverModels ovf fs dirs)"
  shows "model_wf m \<and>
    (\<exists>d v info r hdr r' isShard shardNum stem.
       d \<in> set dirs \<and> v \<in> set (walk fs d) \<and> v_path v = m_Path m \<and>
       EqualFold (Ext (m_Path m)) ''.gguf'' \<and> \<not> name_is_projector (v_name v) \<and>
       v_open v = Opened info r \<and> ReadHeader ovf r = Inr (hdr, r') \<and>
       \<not> isProjectorArch (ToLower (Architecture (Meta hdr))) (KV hdr) \<and>
       parseShardInfo (v_name v) (KV hdr) = (isShard, shardNum, stem) \<and> (isShard \<longrightarrow> shardNum \<le> 1))"
proof -
  from accepted_visit [OF discoverModels_accepted [OF assms]] obtain d v
    where dv: "d \<in> set dirs" "v \<in> set (walk fs d)" "visit_model ovf v = Some m"
    by blast
  note wf = visit_model_wf [OF dv(3)] and ext = visit_model_inspect [OF dv(3)]
  from inspectFile_Some [OF ext(2)] obtain info r hdr r' isShard shardNum stem
    where "\<not> name_is_projector (v_name v)" "v_open v = Opened info r" "ReadHeader ovf r = Inr (hdr, r')"
      "\<not> isProjectorArch (ToLower (Architecture (Meta hdr))) (KV hdr)"
      "parseShardInfo (v_name v) (KV hdr) = (isShard, shardNum, stem)" "\<not> (isShard \<and> shardNum > 1)"
    by blast
  with dv wf ext show ?thesis
    by (intro conjI exI [of _ d] exI [of _ v] exI [of _ info] exI [of _ r] exI [of _ hdr]
        exI [of _ r'] exI [of _ isShard] exI [of _ shardNum] exI [of _ stem]) auto
qed

text \<open>A directory with one file: the second shard of nothing, a plain name with a quantization.\<close>

definition sample_visit :: visit where
  "sample_visit = \<lparr>v_path = ''d/Tiny-Q4_0.gguf'', v_name = ''Tiny-Q4_0.gguf'', v_isdir = False,
     v_err = False, v_cancelled = False,
     v_open = Opened \<lparr>fi_Size = 32, fi_ModTime = 0\<rparr> \<lparr>pending = empty_header, broken = False\<rparr>\<rparr>"

definition sample_fs :: scan_fs where
  "sample_fs = \<lparr>missing = (\<lambda>_. False), walk = (\<lambda>_. [sample_visit])\<rparr>"

lemma sample_header:
  "ReadHeader 0 \<lparr>pending = empty_header, broken = False\<rparr> =
     Inr (\<lparr>Version = 3, TensorCount = 0, KVCount = 0, Meta = extractMetadata 0 Map.empty,
           KV = Map.empty\<rparr>, \<lparr>pending = [], broken = False\<rparr>)"
  using ReadHeader_empty [of 0 "[]" False] by simp

lemma sample_meta:
  "extractMetadata 0 Map.empty =
     \<lparr>Architecture = ''unknown'', ContextLength = 0, BlockCount = 0, Quantization = ''unknown''\<rparr>"
  by (simp add: extractMetadata_def meta_architecture_def meta_quantization_def)

lemma sample_shard: "parseShardInfo ''Tiny-Q4_0.gguf'' Map.empty = (False, 0, ''Tiny-Q4_0'')"
proof -
  have "TrimSuffix ''Tiny-Q4_0.gguf'' (Ext ''Tiny-Q4_0.gguf'') = ''Tiny-Q4_0''"
    "stem_shard ''Tiny-Q4_0'' = (False, 0, ''Tiny-Q4_0'')"
    by code_simp+
  then show ?thesis by (simp add: parseShardInfo_def metaShardNo_def)
qed

lemma sample_derive: "deriveNameAndTag ''Tiny-Q4_0'' ''unknown'' = (''tiny'', ''q4_0'')"
  by code_simp

lemma sample_inspect:
  "\<exists>m. visit_model 0 sample_visit = Some m \<and> m_ID m = ''tiny:q4_0''"
proof -
  have e: "EqualFold (Ext ''d/Tiny-Q4_0.gguf'') ''.gguf''" "\<not> name_is_projector ''Tiny-Q4_0.gguf''"
    "\<not> HasSuffix ''unknown'' ''-proj''" "ToLower ''unknown'' = ''unknown''"
    by code_simp+
  show ?thesis
    by (simp add: visit_model_def sample_visit_def inspectFile_def e sample_header sample_meta
        isProjectorArch_def sample_shard build_model_def sample_derive)
qed

lemma sample_scan: "\<exists>m. discoverModels 0 sample_fs [''d''] = [m] \<and> m_ID m = ''tiny:q4_0''"
proof -
  obtain m where m: "visit_model 0 sample_visit = Some m" "m_ID m = ''tiny:q4_0''"
    using sample_inspect by blast
  have "accepted 0 sample_fs [''d''] = [m]"
    using m(1) by (simp add: accepted_def accepted_in_def sample_fs_def map_filter_simps sample_visit_def)
  then have "discoverModels 0 sample_fs [''d''] = [m]"
    by (simp add: discoverModels_def walk_dirs_accepted record_model_def)
  with m(2) show ?thesis by blast
qed

theorem discoverModels_served_witness:
  "\<exists>m. m \<in> set (discoverModels 0 sample_fs [''d'']) \<and> m_ID m = ''tiny:q4_0'' \<and> model_wf m"
  using sample_scan discoverModels_served [of _ 0 sample_fs "[''d'']"] by (metis list.set_intros(1))

text \<open>
  C30. A shard set is served once. For a file named \<open>stem-NNNNN-of-MMMMM.gguf\<close> (any of the three
  separators) that is no projector, and whose metadata has no shard number or the same one,
  \<open>inspectFile\<close> skips the file when its number is above 1 and otherwise yields the Model named
  after the stem, without the shard suffix.
\<close>

theorem shard_set_served_once:
  assumes "p \<noteq> []" "no_newline p" "is_sep c" "length d1 = 5" "all_digits d1"
    "length d2 = 5" "all_digits d2"
    and "\<not> name_is_projector ((p @ c # d1 @ ''-of-'' @ d2) @ ''.gguf'')"
    and "ReadHeader ovf r = Inr (hdr, r')"
    and "\<not> isProjectorArch (ToLower (Architecture (Meta hdr))) (KV hdr)"
    and "metaShardNo (KV hdr) \<le> 0 \<or> metaShardNo (KV hdr) = int (digits_val d1)"
  shows "inspectFile ovf path ((p @ c # d1 @ ''-of-'' @ d2) @ ''.gguf'') (Opened info r) =
           Inr (if digits_val d1 > 1 then None else Some (build_model path p info hdr))"
  using assms(8-11) parseShardInfo_shard [OF assms(1-7), of "KV hdr"]
  by (auto simp: inspectFile_def)

theorem shard_set_served_once_witness:
  "inspectFile 0 ''x'' ((''big'' @ CHR ''-'' # ''00002'' @ ''-of-'' @ ''00003'') @ ''.gguf'')
     (Opened \<lparr>fi_Size = 32, fi_ModTime = 0\<rparr> \<lparr>pending = empty_header, broken = False\<rparr>) =
     Inr (if digits_val ''00002'' > 1 then None
          else Some (build_model ''x'' ''big'' \<lparr>fi_Size = 32, fi_ModTime = 0\<rparr>
            \<lparr>Version = 3, TensorCount = 0, KVCount = 0, Meta = extractMetadata 0 Map.empty,
             KV = Map.empty\<rparr>))"
proof (rule shard_set_served_once [OF _ _ _ _ _ _ _ _ sample_header])
  show "\<not> name_is_projector ((''big'' @ CHR ''-'' # ''00002'' @ ''-of-'' @ ''00003'') @ ''.gguf'')"
    "all_digits ''00002''" "all_digits ''00003''" "no_newline ''big''" "is_sep CHR ''-''"
    by code_simp+
  have "\<not> HasSuffix ''unknown'' ''-proj''" "ToLower ''unknown'' = ''unknown''"
    by code_simp+
  then show "\<not> isProjectorArch (ToLower (Architecture (Meta \<lparr>Version = 3, TensorCount = 0, KVCount = 0,
      Meta = extractMetadata 0 Map.empty, KV = Map.empty\<rparr>)))
      (KV \<lparr>Version = 3, TensorCount = 0, KVCount = 0, Meta = extractMetadata 0 Map.empty, KV = Map.empty\<rparr>)"
    by (simp add: sample_meta isProjectorArch_def)
qed (simp_all add: metaShardNo_def)

text \<open>
  The identity of a canonically named file: for a stem, a separator and the quantization of
  the metadata in any letter case, the name is the lower-case stem and the tag the lower-case
  quantization.
\<close>

theorem deriveNameAndTag_canonical:
  assumes "b \<noteq> []" "\<not> is_sep (last b)" "genericQuantRegex b = None" "is_sep c"
    and "ToLower q \<noteq> ''unknown''" "q \<noteq> []" "EqualFold q' q"
  shows "deriveNameAndTag (b @ c # q') q = (ToLower b, ToLower q)"
proof -
  from assms(7) have len: "length q' = length q"
    unfolding EqualFold_def ToLower_def by (metis length_map)
  have unk: "q \<noteq> ''unknown''"
    using assms(5) by (auto simp: ToLower_def lower_char_def)
  have "strip_meta_quant (b @ c # q') q = b"
    using assms(1,4,6,7) unk by (simp add: strip_meta_quant_def Let_def len nth_append)
  moreover have "last (ToLower b) \<notin> set ''.-_''"
    using assms(1,2) is_sep_lower [of "last b"] unfolding is_sep_set [symmetric]
    by (auto simp: ToLower_def last_map)
  moreover have "ToLower b \<noteq> []" "ToLower q \<noteq> []"
    using assms(1,6) by (simp_all add: ToLower_def)
  ultimately show ?thesis
    using assms(3,5) TrimRight_noop [of "ToLower b" "''.-_''"]
    by (simp add: deriveNameAndTag_def strip_generic_quant_def)
qed

theorem deriveNameAndTag_canonical_witness:
  "deriveNameAndTag (''Llama-3-8B-Instruct'' @ CHR ''.'' # ''q4_K_m'') ''Q4_K_M'' =
     (ToLower ''Llama-3-8B-Instruct'', ToLower ''Q4_K_M'')"
proof (rule deriveNameAndTag_canonical)
  show "\<not> is_sep (last ''Llama-3-8B-Instruct'')" "genericQuantRegex ''Llama-3-8B-Instruct'' = None"
    "is_sep CHR ''.''" "ToLower ''Q4_K_M'' \<noteq> ''unknown''" "EqualFold ''q4_K_m'' ''Q4_K_M''"
    by code_simp+
qed simp_all

end
