(* ===== verification/Config.thy ===== *)
theory Config
  imports Discovery
begin

text \<open>
  The optional configuration file and what it overrides: \<open>src/internal/supervisor/supervisor.go\<close>,
  the flag tables, \<open>loadConfig\<close>, \<open>lookupByModelKeys\<close>, the \<open>resolve\<close> functions and the launch
  argv of \<open>launchConfig\<close>. Reading the file and decoding its JSON is an argument (\<open>config_input\<close>);
  so is \<open>time.ParseDuration\<close>. A Go map being ranged over is the list of its entries in the order
  of that iteration.
\<close>

section \<open>Flags\<close>

definition flagModelShort :: string where "flagModelShort = ''-m''"
definition flagModelLong :: string where "flagModelLong = ''--model''"
definition flagCtxSizeShort :: string where "flagCtxSizeShort = ''-c''"
definition flagCtxSizeLong :: string where "flagCtxSizeLong = ''--ctx-size''"
definition flagNGPULayersShort :: string where "flagNGPULayersShort = ''-ngl''"
definition flagNGPULayersLong :: string where "flagNGPULayersLong = ''--n-gpu-layers''"
definition flagParallelShort :: string where "flagParallelShort = ''-np''"
definition flagParallelLong :: string where "flagParallelLong = ''--parallel''"

lemmas flag_defs =
  flagModelShort_def flagModelLong_def flagCtxSizeShort_def flagCtxSizeLong_def
  flagNGPULayersShort_def flagNGPULayersLong_def flagParallelShort_def flagParallelLong_def

definition reservedFlags :: "string list" where
  "reservedFlags =
     [flagModelShort, flagModelLong, flagCtxSizeShort, flagCtxSizeLong,
      flagNGPULayersShort, flagNGPULayersLong, flagParallelShort, flagParallelLong]"

definition isReservedFlag :: "string \<Rightarrow> bool" where
  "isReservedFlag arg \<longleftrightarrow> list_ex (\<lambda>f. arg = f \<or> HasPrefix arg (f @ ''='')) reservedFlags"

section \<open>Configuration data\<close>

record tunableFlags =
  CtxLen :: u64
  Offload :: u64

record TuningPin =
  pin_CtxLen :: "u64 option"
  pin_Offload :: "u64 option"

record ModelConfig =
  mc_Argv :: "string list"
  mc_TTL :: string
  mc_Slots :: "int option"
  mc_Pin :: "TuningPin option"

type_synonym duration = int   \<comment> \<open>nanoseconds\<close>

datatype config_input = ReadFails | ParseFails | Parsed "(string \<times> ModelConfig) list"

datatype config_err =
    CfgReadErr
  | CfgParseErr
  | CfgInvalidTTL string
  | CfgReservedFlag string string
  | CfgSlotsNotPositive string int
  | CfgPinIncomplete string
  | CfgPinCtxZero string

section \<open>Loading and validating\<close>

text \<open>One turn of the loop of \<open>loadConfig\<close>: the checks on a Model's entry, in order, and its TTL.\<close>

definition check_argv :: "string \<Rightarrow> string list \<Rightarrow> config_err option" where
  "check_argv ref argv = map_option (CfgReservedFlag ref) (find isReservedFlag argv)"

definition check_pin :: "string \<Rightarrow> TuningPin option \<Rightarrow> config_err option" where
  "check_pin ref p =
     (case p of
        None \<Rightarrow> None
      | Some pin \<Rightarrow>
          (if pin_CtxLen pin = None \<or> pin_Offload pin = None then Some (CfgPinIncomplete ref)
           else if pin_CtxLen pin = Some 0 then Some (CfgPinCtxZero ref)
           else None))"

definition check_model ::
  "(string \<Rightarrow> duration option) \<Rightarrow> string \<Rightarrow> ModelConfig \<Rightarrow> (config_err, duration option) res"
where
  "check_model ParseDuration ref mc =
     res_bind (if mc_TTL mc \<noteq> [] then
                 (case ParseDuration (mc_TTL mc) of
                    None \<Rightarrow> Inl (CfgInvalidTTL ref)
                  | Some d \<Rightarrow> Inr (Some d))
               else Inr None) (\<lambda>ttl.
       case check_argv ref (mc_Argv mc) of
         Some e \<Rightarrow> Inl e
       | None \<Rightarrow>
           (case mc_Slots mc of
              Some n \<Rightarrow>
                (if n \<le> 0 then Inl (CfgSlotsNotPositive ref n)
                 else (case check_pin ref (mc_Pin mc) of Some e \<Rightarrow> Inl e | None \<Rightarrow> Inr ttl))
            | None \<Rightarrow> (case check_pin ref (mc_Pin mc) of Some e \<Rightarrow> Inl e | None \<Rightarrow> Inr ttl)))"

fun check_models ::
  "(string \<Rightarrow> duration option) \<Rightarrow> (string \<times> ModelConfig) list \<Rightarrow> (string \<rightharpoonup> duration) \<Rightarrow>
     (config_err, string \<rightharpoonup> duration) res"
where
  "check_models ParseDuration [] configTTL = Inr configTTL"
| "check_models ParseDuration ((ref, mc) # ms) configTTL =
     res_bind (check_model ParseDuration ref mc) (\<lambda>ttl.
       check_models ParseDuration ms
         (case ttl of Some d \<Rightarrow> configTTL(ref \<mapsto> d) | None \<Rightarrow> configTTL))"

text \<open>The configuration and its parsed TTLs, as \<open>s.config.Models\<close> and \<open>s.configTTL\<close>.\<close>

definition loadConfig ::
  "(string \<Rightarrow> duration option) \<Rightarrow> config_input \<Rightarrow>
     (config_err, (string \<rightharpoonup> ModelConfig) \<times> (string \<rightharpoonup> duration)) res"
where
  "loadConfig ParseDuration inp =
     (case inp of
        ReadFails \<Rightarrow> Inl CfgReadErr
      | ParseFails \<Rightarrow> Inl CfgParseErr
      | Parsed ms \<Rightarrow>
          res_bind (check_models ParseDuration ms Map.empty) (\<lambda>configTTL. Inr (map_of ms, configTTL)))"

section \<open>Resolving a Model's settings\<close>

definition lookupByModelKeys :: "Model \<Rightarrow> (string \<rightharpoonup> 'v) \<Rightarrow> 'v option" where
  "lookupByModelKeys m byKey =
     (case byKey (m_ID m) of
        Some v \<Rightarrow> Some v
      | None \<Rightarrow>
          (case byKey (m_Name m) of
             Some v \<Rightarrow> Some v
           | None \<Rightarrow>
               (case byKey (m_Path m) of
                  Some v \<Rightarrow> Some v
                | None \<Rightarrow> byKey (Base (m_Path m)))))"

definition resolveModelConfig :: "(string \<rightharpoonup> ModelConfig) \<Rightarrow> Model \<Rightarrow> ModelConfig option" where
  "resolveModelConfig config m = lookupByModelKeys m config"

definition resolveSlots :: "(string \<rightharpoonup> ModelConfig) \<Rightarrow> int \<Rightarrow> Model \<Rightarrow> int" where
  "resolveSlots config slotsPerInstance m =
     (case resolveModelConfig config m of
        Some mc \<Rightarrow> (case mc_Slots mc of Some n \<Rightarrow> n | None \<Rightarrow> slotsPerInstance)
      | None \<Rightarrow> slotsPerInstance)"

definition resolveArgv :: "(string \<rightharpoonup> ModelConfig) \<Rightarrow> Model \<Rightarrow> string list" where
  "resolveArgv config m =
     (case resolveModelConfig config m of Some mc \<Rightarrow> mc_Argv mc | None \<Rightarrow> [])"

text \<open>Dereferencing a nil pointer of a Pin would panic: \<open>PinNil\<close>.\<close>

datatype pin_result = NoPin | Pinned tunableFlags | PinNil

definition resolvePin :: "(string \<rightharpoonup> ModelConfig) \<Rightarrow> Model \<Rightarrow> pin_result" where
  "resolvePin config m =
     (case resolveModelConfig config m of
        Some mc \<Rightarrow>
          (case mc_Pin mc of
             Some pin \<Rightarrow>
               (case (pin_CtxLen pin, pin_Offload pin) of
                  (Some c, Some l) \<Rightarrow> Pinned \<lparr>CtxLen = c, Offload = l\<rparr>
                | _ \<Rightarrow> PinNil)
           | None \<Rightarrow> NoPin)
      | None \<Rightarrow> NoPin)"

definition resolveTTLLocked ::
  "(string \<rightharpoonup> duration) \<Rightarrow> (string \<rightharpoonup> Model) \<Rightarrow> (string \<rightharpoonup> duration) \<Rightarrow> duration \<Rightarrow> string \<Rightarrow> duration"
where
  "resolveTTLLocked modelTTLs models configTTL defaultTTL modelID =
     (case modelTTLs modelID of
        Some ttl \<Rightarrow> ttl
      | None \<Rightarrow>
          (case models modelID of
             None \<Rightarrow> defaultTTL
           | Some m \<Rightarrow>
               (case lookupByModelKeys m modelTTLs of
                  Some ttl \<Rightarrow> ttl
                | None \<Rightarrow>
                    (case lookupByModelKeys m configTTL of
                       Some ttl \<Rightarrow> ttl
                     | None \<Rightarrow> defaultTTL))))"

definition launch_argv ::
  "(string \<rightharpoonup> ModelConfig) \<Rightarrow> int \<Rightarrow> Model \<Rightarrow> tunableFlags \<Rightarrow> string list"
where
  "launch_argv config slotsPerInstance m cfg =
     [''llama-server'', flagModelShort, m_Path m, flagCtxSizeShort, FormatUint (CtxLen cfg),
      flagNGPULayersShort, FormatUint (Offload cfg),
      flagParallelShort, Itoa (resolveSlots config slotsPerInstance m)] @ resolveArgv config m"

section \<open>Specification\<close>

text \<open>The validation rules, each on its own.\<close>

definition pin_valid :: "TuningPin \<Rightarrow> bool" where
  "pin_valid pin \<longleftrightarrow> pin_Offload pin \<noteq> None \<and> (\<exists>c. pin_CtxLen pin = Some c \<and> c \<noteq> 0)"

definition mc_valid :: "(string \<Rightarrow> duration option) \<Rightarrow> ModelConfig \<Rightarrow> bool" where
  "mc_valid ParseDuration mc \<longleftrightarrow>
     (mc_TTL mc \<noteq> [] \<longrightarrow> ParseDuration (mc_TTL mc) \<noteq> None) \<and>
     (\<forall>arg \<in> set (mc_Argv mc). \<not> isReservedFlag arg) \<and>
     (\<forall>n. mc_Slots mc = Some n \<longrightarrow> 0 < n) \<and>
     (\<forall>pin. mc_Pin mc = Some pin \<longrightarrow> pin_valid pin)"

definition mc_ttl :: "(string \<Rightarrow> duration option) \<Rightarrow> ModelConfig \<Rightarrow> duration option" where
  "mc_ttl ParseDuration mc = (if mc_TTL mc = [] then None else ParseDuration (mc_TTL mc))"

text \<open>The keys a Model is looked up by, and the first hit in a list of lookups.\<close>

definition model_keys :: "Model \<Rightarrow> string list" where
  "model_keys m = [m_ID m, m_Name m, m_Path m, Base (m_Path m)]"

fun first_hit :: "'v option list \<Rightarrow> 'v option" where
  "first_hit [] = None"
| "first_hit (x # xs) = (case x of Some v \<Rightarrow> Some v | None \<Rightarrow> first_hit xs)"

section \<open>Lemmas\<close>

lemma check_model_Inr_iff:
  "check_model pd ref mc = Inr ttl \<longleftrightarrow> mc_valid pd mc \<and> ttl = mc_ttl pd mc"
proof -
  have argv: "check_argv ref (mc_Argv mc) = None \<longleftrightarrow> (\<forall>arg \<in> set (mc_Argv mc). \<not> isReservedFlag arg)"
    by (auto simp: check_argv_def find_None_iff)
  have pin: "check_pin ref (mc_Pin mc) = None \<longleftrightarrow> (\<forall>pin. mc_Pin mc = Some pin \<longrightarrow> pin_valid pin)"
    by (auto simp: check_pin_def pin_valid_def split: option.splits)
  show ?thesis
    unfolding check_model_def mc_valid_def mc_ttl_def argv [symmetric] pin [symmetric]
    by (auto simp: not_le split: option.splits)
qed

lemma check_models_Inr_iff:
  "check_models pd ms acc = Inr ttls \<longleftrightarrow>
     list_all (\<lambda>(r, mc). mc_valid pd mc) ms \<and>
     ttls = foldl (\<lambda>t (r, mc). case mc_ttl pd mc of Some d \<Rightarrow> t(r \<mapsto> d) | None \<Rightarrow> t) acc ms"
proof (induction ms arbitrary: acc)
  case Nil
  then show ?case by auto
next
  case (Cons x ms)
  then show ?case
    by (cases x) (auto simp: res_simps check_model_Inr_iff)
qed

lemma foldl_ttls:
  assumes "distinct (map fst ms)"
  shows "foldl (\<lambda>t (r, mc). case f mc of Some d \<Rightarrow> t(r \<mapsto> d) | None \<Rightarrow> t) acc ms =
           (\<lambda>r. case Option.bind (map_of ms r) f of Some d \<Rightarrow> Some d | None \<Rightarrow> acc r)"
  using assms
proof (induction ms arbitrary: acc)
  case Nil
  then show ?case by simp
next
  case (Cons x ms)
  obtain r mc where x: "x = (r, mc)" by (cases x)
  have "map_of ms r = None" using Cons.prems by (simp add: x map_of_eq_None_iff)
  with Cons show ?case
    by (auto simp: x fun_eq_iff split: option.splits)
qed

lemma loadConfig_iff:
  assumes "distinct (map fst ms)"
  shows "loadConfig pd (Parsed ms) = Inr (config, configTTL) \<longleftrightarrow>
     (\<forall>(r, mc) \<in> set ms. mc_valid pd mc) \<and> config = map_of ms \<and>
     configTTL = (\<lambda>r. Option.bind (map_of ms r) (mc_ttl pd))"
proof -
  have e: "foldl (\<lambda>t (r, mc). case mc_ttl pd mc of Some d \<Rightarrow> t(r \<mapsto> d) | None \<Rightarrow> t) Map.empty ms =
      (\<lambda>r. Option.bind (map_of ms r) (mc_ttl pd))"
    unfolding foldl_ttls [OF assms] by (rule ext) (simp split: option.split)
  show ?thesis
    unfolding loadConfig_def config_input.case res_bind_Inr_iff check_models_Inr_iff e list_all_iff
    by auto
qed

lemma lookup_first_hit: "lookupByModelKeys m byKey = first_hit (map byKey (model_keys m))"
  by (simp add: lookupByModelKeys_def model_keys_def split: option.splits)

lemma first_hit_append:
  "first_hit (xs @ ys) = (case first_hit xs of Some v \<Rightarrow> Some v | None \<Rightarrow> first_hit ys)"
  by (induction xs) (auto split: option.splits)

lemma lookup_range: "lookupByModelKeys m byKey = Some v \<Longrightarrow> \<exists>k. byKey k = Some v"
  by (auto simp: lookupByModelKeys_def split: option.splits)

lemma loaded_valid:
  assumes "loadConfig pd inp = Inr (config, configTTL)" "resolveModelConfig config m = Some mc"
  shows "mc_valid pd mc"
proof -
  from assms(1) obtain ms where "list_all (\<lambda>(r, mc). mc_valid pd mc) ms" "config = map_of ms"
    unfolding loadConfig_def
    by (cases inp) (simp_all only: config_input.case res_bind_Inr_iff check_models_Inr_iff, auto)
  moreover from lookup_range [OF assms(2) [unfolded resolveModelConfig_def]]
  obtain k where "config k = Some mc" by blast
  ultimately show ?thesis
    by (auto simp: list_all_iff dest!: map_of_SomeD)
qed

lemma loaded_slots:
  assumes "loadConfig pd inp = Inr (config, configTTL)" "0 < slots"
  shows "0 < resolveSlots config slots m"
  using loaded_valid [OF assms(1), of m] assms(2)
  by (auto simp: resolveSlots_def mc_valid_def split: option.splits)

lemma loaded_pin:
  assumes "loadConfig pd inp = Inr (config, configTTL)"
  shows "resolvePin config m \<noteq> PinNil"
  using loaded_valid [OF assms(1), of m]
  by (auto simp: resolvePin_def mc_valid_def pin_valid_def split: option.splits)

lemma dec_string_digits: "list_all is_digit (dec_string n) \<and> dec_string n \<noteq> []"
proof (induction n rule: dec_string.induct)
  case (1 n)
  have d: "is_digit (digit_char k)" if "k < 10" for k
    using that by (simp add: is_digit_def digit_char_def)
  show ?case
  proof (cases "n < 10")
    case True
    then show ?thesis by (subst (1 2) dec_string.simps) (simp add: d)
  next
    case False
    with 1 have "list_all is_digit (dec_string (n div 10))" by simp
    with False show ?thesis by (subst (1 2) dec_string.simps) (simp add: d)
  qed
qed

lemma reserved_dash: "isReservedFlag s \<Longrightarrow> \<exists>t. s = CHR ''-'' # t"
  by (cases s) (auto simp: isReservedFlag_def reservedFlags_def flag_defs HasPrefix_def)

lemma digits_not_reserved: "\<not> isReservedFlag (dec_string n)"
  using dec_string_digits [of n] reserved_dash [of "dec_string n"]
  by (auto simp: is_digit_def)


lemma number_not_reserved:
  "\<not> isReservedFlag (FormatUint n)"
  "0 \<le> i \<Longrightarrow> \<not> isReservedFlag (Itoa i)"
  by (simp_all add: FormatUint_def Itoa_def digits_not_reserved)

lemma digits_val_append: "digits_val (s @ [c]) = 10 * digits_val s + digit_val c"
  by (simp add: digits_val_def)

lemma digits_val_dec_string: "digits_val (dec_string n) = n"
proof (induction n rule: dec_string.induct)
  case (1 n)
  have d: "digit_val (digit_char k) = k" if "k < 10" for k
    using that by (simp add: digit_val_def digit_char_def)
  show ?case
  proof (cases "n < 10")
    case True
    then show ?thesis by (subst dec_string.simps) (simp add: digits_val_def d)
  next
    case False
    with 1 have "digits_val (dec_string (n div 10)) = n div 10" by simp
    with False show ?thesis by (subst dec_string.simps) (simp add: digits_val_append d)
  qed
qed

section \<open>Properties\<close>

text \<open>
  C22. The configuration file is accepted exactly when every entry obeys the validation rules: its
  TTL parses, its extra argv has no reserved flag, its Slot count is positive and its Pin is
  complete with a positive context length. What is then kept is the file's map and the parsed
  TTLs, and neither depends on the order in which the map is ranged over.
\<close>

theorem loadConfig_validates:
  assumes "distinct (map fst ms)"
  shows "((\<exists>r. loadConfig pd (Parsed ms) = Inr r) \<longleftrightarrow> (\<forall>(r, mc) \<in> set ms. mc_valid pd mc)) \<and>
    (\<forall>config configTTL. loadConfig pd (Parsed ms) = Inr (config, configTTL) \<longrightarrow>
       config = map_of ms \<and> configTTL = (\<lambda>r. Option.bind (map_of ms r) (mc_ttl pd))) \<and>
    (\<forall>ms' r. mset ms' = mset ms \<longrightarrow>
       loadConfig pd (Parsed ms') = Inr r \<longleftrightarrow> loadConfig pd (Parsed ms) = Inr r)"
proof (intro conjI allI impI)
  show "(\<exists>r. loadConfig pd (Parsed ms) = Inr r) \<longleftrightarrow> (\<forall>(r, mc) \<in> set ms. mc_valid pd mc)"
    using loadConfig_iff [OF assms, of pd] by (metis surj_pair)
next
  fix config configTTL
  assume "loadConfig pd (Parsed ms) = Inr (config, configTTL)"
  then show "config = map_of ms" "configTTL = (\<lambda>r. Option.bind (map_of ms r) (mc_ttl pd))"
    by (simp_all add: loadConfig_iff [OF assms])
next
  fix ms' r
  assume mset: "mset ms' = mset ms"
  then have "distinct (map fst ms')"
    using assms by (metis mset_eq_imp_distinct_iff mset_map)
  moreover have "set ms' = set ms" using mset by (rule mset_eq_setD)
  moreover from calculation have "map_of ms' = map_of ms"
    using assms by (metis map_of_inject_set)
  ultimately show "loadConfig pd (Parsed ms') = Inr r \<longleftrightarrow> loadConfig pd (Parsed ms) = Inr r"
    by (cases r) (simp add: loadConfig_iff assms)
qed

text \<open>A file with a pinned Model and one with a TTL.\<close>

definition sample_entries :: "(string \<times> ModelConfig) list" where
  "sample_entries =
     [(''tiny'', \<lparr>mc_Argv = [''--mlock''], mc_TTL = ''5m'', mc_Slots = Some 4, mc_Pin = None\<rparr>),
      (''big:q4_0'', \<lparr>mc_Argv = [], mc_TTL = [], mc_Slots = None,
        mc_Pin = Some \<lparr>pin_CtxLen = Some 4096, pin_Offload = Some 0\<rparr>\<rparr>)]"

definition sample_pd :: "string \<Rightarrow> duration option" where
  "sample_pd s = (if s = ''5m'' then Some 300000000000 else None)"

lemma mlock_not_reserved: "\<not> isReservedFlag ''--mlock''"
  by code_simp

lemma sample_entries_ok: "distinct (map fst sample_entries)" "\<forall>(r, mc) \<in> set sample_entries. mc_valid sample_pd mc"
  by (simp_all add: sample_entries_def mc_valid_def sample_pd_def pin_valid_def mlock_not_reserved)

theorem loadConfig_validates_witness:
  "\<exists>r. loadConfig sample_pd (Parsed sample_entries) = Inr r"
  using loadConfig_validates [OF sample_entries_ok(1), of sample_pd] sample_entries_ok(2) by blast

lemma sample_loaded: "\<exists>c t. loadConfig sample_pd (Parsed sample_entries) = Inr (c, t) \<and> c = map_of sample_entries"
  by (simp add: loadConfig_iff [OF sample_entries_ok(1)] sample_entries_ok(2))

text \<open>
  The pointers of a Pin are safe to dereference: after a configuration has been loaded, no
  Model resolves to a Pin with a missing field, a pinned context length is positive, and the Slot
  count of every Model is positive when the Supervisor-wide default is.
\<close>

theorem resolved_settings_safe:
  assumes "loadConfig pd inp = Inr (config, configTTL)" "0 < slotsPerInstance"
  shows "resolvePin config m \<noteq> PinNil \<and>
    (\<forall>cfg. resolvePin config m = Pinned cfg \<longrightarrow> CtxLen cfg \<noteq> 0) \<and>
    0 < resolveSlots config slotsPerInstance m"
proof (intro conjI)
  show "0 < resolveSlots config slotsPerInstance m" by (rule loaded_slots [OF assms])
next
  show "resolvePin config m \<noteq> PinNil"
    by (rule loaded_pin [OF assms(1)])
next
  show "\<forall>cfg. resolvePin config m = Pinned cfg \<longrightarrow> CtxLen cfg \<noteq> 0"
    using loaded_valid [OF assms(1), of m]
    by (auto simp: resolvePin_def mc_valid_def pin_valid_def split: option.splits)
qed

definition sample_model :: Model where
  "sample_model = \<lparr>m_ID = ''big:q4_0'', m_Name = ''big'', m_Tag = ''q4_0'', m_Path = ''/m/Big-Q4_0.gguf'',
     m_Size = 32, m_ModTime = 0, m_Digest = [], m_Architecture = ''llama'', m_ContextLength = 8192,
     m_BlockCount = 32, m_Quantization = ''Q4_0''\<rparr>"

theorem resolved_settings_safe_witness:
  "resolvePin (map_of sample_entries) sample_model = Pinned \<lparr>CtxLen = 4096, Offload = 0\<rparr> \<and>
   0 < resolveSlots (map_of sample_entries) 1 sample_model \<and>
   resolvePin (map_of sample_entries) sample_model \<noteq> PinNil"
proof -
  have "resolvePin (map_of sample_entries) sample_model = Pinned \<lparr>CtxLen = 4096, Offload = 0\<rparr>"
    by (simp add: resolvePin_def resolveModelConfig_def lookupByModelKeys_def sample_model_def
        sample_entries_def)
  then show ?thesis
    using sample_loaded resolved_settings_safe [of sample_pd "Parsed sample_entries" _ _ 1 sample_model]
    by auto
qed

text \<open>
  C21. The launch command of a Model carries each flag the Supervisor computes exactly once, in the
  order \<open>-m\<close>, \<open>-c\<close>, \<open>-ngl\<close>, \<open>-np\<close>, each followed by its value, and the operator's extra
  arguments cannot override one: no other argument is a reserved flag. The numbers read back as
  the values they were printed from.
\<close>

theorem launch_argv_flags:
  assumes "loadConfig pd inp = Inr (config, configTTL)" "0 < slotsPerInstance"
    and "\<not> isReservedFlag (m_Path m)"
  shows "filter isReservedFlag (launch_argv config slotsPerInstance m cfg) =
      [flagModelShort, flagCtxSizeShort, flagNGPULayersShort, flagParallelShort] \<and>
    (\<exists>c l n rest. launch_argv config slotsPerInstance m cfg =
       ''llama-server'' # flagModelShort # m_Path m # flagCtxSizeShort # c #
       flagNGPULayersShort # l # flagParallelShort # n # rest \<and>
       digits_val c = unat (CtxLen cfg) \<and> digits_val l = unat (Offload cfg) \<and>
       int (digits_val n) = resolveSlots config slotsPerInstance m)"
proof -
  have slots: "0 < resolveSlots config slotsPerInstance m" by (rule loaded_slots [OF assms(1,2)])
  have argv: "filter isReservedFlag (resolveArgv config m) = []"
    using loaded_valid [OF assms(1), of m]
    by (cases "resolveModelConfig config m")
       (auto simp: resolveArgv_def mc_valid_def filter_empty_conv)
  have flags: "isReservedFlag flagModelShort" "isReservedFlag flagCtxSizeShort"
    "isReservedFlag flagNGPULayersShort" "isReservedFlag flagParallelShort"
    "\<not> isReservedFlag ''llama-server''"
    by (simp_all add: isReservedFlag_def reservedFlags_def) (simp_all add: flag_defs HasPrefix_def)
  show ?thesis
    using slots assms(3)
    by (simp add: launch_argv_def flags argv number_not_reserved FormatUint_def Itoa_def
        digits_not_reserved digits_val_dec_string)
qed

theorem launch_argv_flags_witness:
  "filter isReservedFlag
     (launch_argv (map_of sample_entries) 2 sample_model \<lparr>CtxLen = 4096, Offload = 12\<rparr>) =
     [flagModelShort, flagCtxSizeShort, flagNGPULayersShort, flagParallelShort]"
proof -
  obtain t where "loadConfig sample_pd (Parsed sample_entries) = Inr (map_of sample_entries, t)"
    using sample_loaded by blast
  moreover have "\<not> isReservedFlag (m_Path sample_model)"
    using reserved_dash [of "m_Path sample_model"] by (auto simp: sample_model_def)
  ultimately show ?thesis
    using launch_argv_flags [of sample_pd "Parsed sample_entries" "map_of sample_entries" t 2 sample_model]
    by simp
qed

text \<open>
  The idle TTL of a registered Model is decided by the source first and the key second: any
  runtime override, whichever of the Model's keys it was set under (ID, name, path, base name of
  the path, in this order), wins over every override of the configuration file, and the default
  applies only when there is neither.
\<close>

theorem resolveTTL_precedence:
  assumes "models modelID = Some m" "m_ID m = modelID"
  shows "resolveTTLLocked modelTTLs models configTTL defaultTTL modelID =
    (case first_hit (map modelTTLs (model_keys m) @ map configTTL (model_keys m)) of
       Some ttl \<Rightarrow> ttl | None \<Rightarrow> defaultTTL)"
  using assms unfolding resolveTTLLocked_def lookup_first_hit first_hit_append
  by (simp add: model_keys_def split: option.split)

theorem resolveTTL_precedence_witness:
  "resolveTTLLocked [''big'' \<mapsto> 7] [''big:q4_0'' \<mapsto> sample_model] [''big:q4_0'' \<mapsto> 9] 5 ''big:q4_0'' = 7"
  using resolveTTL_precedence [of "[''big:q4_0'' \<mapsto> sample_model]" "''big:q4_0''" sample_model
      "[''big'' \<mapsto> 7]" "[''big:q4_0'' \<mapsto> 9]" 5]
  by (simp add: sample_model_def model_keys_def)

end
