(* ===== verification/Resident.thy ===== *)
theory Resident
  imports Config "HOL-Library.Multiset"
begin

text \<open>
  A resident Instance, \<open>residentInstance\<close> of \<open>src/internal/supervisor/supervisor.go\<close>: Slots,
  idle timer, draining and stopping. Every method runs under the mutex of the Instance, which is
  given up only at its end and in \<open>idleCond.Wait\<close>; so a method is one function per critical
  section, and the second part of the theory runs the sections of any number of goroutines in
  any order. Times and durations are in nanoseconds, the time of a section is an argument.
\<close>

section \<open>Data\<close>

type_synonym time = int

text \<open>
  \<open>idleTimer\<close> is nil or the last timer made by \<open>time.AfterFunc\<close>, which is armed until it fires or
  is stopped. Every section that replaces the timer stops the old one first, so an older timer is
  never armed.
\<close>

datatype timer = Armed time | Unarmed

record residentInstance =
  ri_modelID :: string
  ri_inst :: nat
  ri_ttl :: duration
  ri_activeCount :: int
  ri_maxSlots :: int
  ri_draining :: bool
  ri_stopped :: bool
  ri_idleTimer :: "timer option"
  ri_timerActive :: bool
  ri_lastUsed :: time

definition newResidentInstance :: "string \<Rightarrow> nat \<Rightarrow> duration \<Rightarrow> int \<Rightarrow> time \<Rightarrow> residentInstance" where
  "newResidentInstance modelID inst ttl maxSlots now =
     \<lparr>ri_modelID = modelID, ri_inst = inst, ri_ttl = ttl, ri_activeCount = 0,
      ri_maxSlots = (if maxSlots \<le> 0 then 1 else maxSlots), ri_draining = False,
      ri_stopped = False, ri_idleTimer = None, ri_timerActive = False, ri_lastUsed = now\<rparr>"

definition Occupancy :: "residentInstance \<Rightarrow> int \<times> int" where
  "Occupancy ri = (ri_activeCount ri, ri_maxSlots ri)"

definition getLastUsed :: "residentInstance \<Rightarrow> time" where
  "getLastUsed ri = ri_lastUsed ri"

text \<open>2099-12-31 23:59:59 UTC.\<close>

definition neverExpires :: time where
  "neverExpires = 4102444799 * 1000000000"

definition ExpiresAt :: "residentInstance \<Rightarrow> time \<Rightarrow> time" where
  "ExpiresAt ri now =
     (if ri_timerActive ri then now + ri_ttl ri
      else if ri_ttl ri > 0 then ri_lastUsed ri + ri_ttl ri
      else neverExpires)"

section \<open>Timers\<close>

text \<open>\<open>idleTimer.Stop()\<close>, and the two guards under which the methods call it.\<close>

definition stop_timer :: "residentInstance \<Rightarrow> residentInstance" where
  "stop_timer ri = ri\<lparr>ri_idleTimer := map_option (\<lambda>_. Unarmed) (ri_idleTimer ri)\<rparr>"

definition stop_if_active :: "residentInstance \<Rightarrow> residentInstance" where
  "stop_if_active ri =
     (if ri_idleTimer ri \<noteq> None \<and> ri_timerActive ri
      then (stop_timer ri)\<lparr>ri_timerActive := False\<rparr> else ri)"

definition stop_if_set :: "residentInstance \<Rightarrow> residentInstance" where
  "stop_if_set ri =
     (if ri_idleTimer ri \<noteq> None then (stop_timer ri)\<lparr>ri_timerActive := False\<rparr> else ri)"

definition arm_timer :: "duration \<Rightarrow> time \<Rightarrow> residentInstance \<Rightarrow> residentInstance" where
  "arm_timer d now ri = ri\<lparr>ri_timerActive := True, ri_idleTimer := Some (Armed (now + d))\<rparr>"

section \<open>Slots\<close>

text \<open>
  The outcome of a section of \<open>acquire\<close>: it returned, or it waits on the condition variable.
  \<open>cancelled\<close> and \<open>exited\<close> are what \<open>ctx.Err()\<close> and \<open>inst.Done()\<close> say when the section looks.
\<close>

datatype acquire_result = Returned bool | Waits

definition unavailable :: "bool \<Rightarrow> bool \<Rightarrow> residentInstance \<Rightarrow> bool" where
  "unavailable cancelled exited ri \<longleftrightarrow> cancelled \<or> ri_draining ri \<or> ri_stopped ri \<or> exited"

definition acquire_grant :: "time \<Rightarrow> residentInstance \<Rightarrow> residentInstance" where
  "acquire_grant now ri =
     stop_if_active (ri\<lparr>ri_activeCount := ri_activeCount ri + 1, ri_lastUsed := now\<rparr>)"

text \<open>From the head of the waiting loop on: the section a wake-up starts.\<close>

definition acquire_loop ::
  "bool \<Rightarrow> bool \<Rightarrow> time \<Rightarrow> residentInstance \<Rightarrow> acquire_result \<times> residentInstance"
where
  "acquire_loop cancelled exited now ri =
     (if ri_activeCount ri \<ge> ri_maxSlots ri then
        (if unavailable cancelled exited ri then (Returned False, ri) else (Waits, ri))
      else if unavailable cancelled exited ri then (Returned False, ri)
      else (Returned True, acquire_grant now ri))"

definition acquire ::
  "bool \<Rightarrow> bool \<Rightarrow> bool \<Rightarrow> bool \<Rightarrow> time \<Rightarrow> residentInstance \<Rightarrow> acquire_result \<times> residentInstance"
where
  "acquire cancelled exited cancelled' exited' now ri =
     (if unavailable cancelled exited ri then (Returned False, ri)
      else acquire_loop cancelled' exited' now
             (if ri_maxSlots ri \<le> 0 then ri\<lparr>ri_maxSlots := 1\<rparr> else ri))"

definition release :: "time \<Rightarrow> residentInstance \<Rightarrow> residentInstance" where
  "release now ri =
     (let ri = ri\<lparr>ri_lastUsed := now\<rparr>;
          ri = (if ri_activeCount ri > 0 then ri\<lparr>ri_activeCount := ri_activeCount ri - 1\<rparr> else ri)
      in if ri_activeCount ri = 0 then
           (if ri_draining ri then ri
            else if ri_ttl ri > 0 \<and> \<not> ri_stopped ri
            then arm_timer (ri_ttl ri) now (if ri_idleTimer ri \<noteq> None then stop_timer ri else ri)
            else ri)
         else ri)"

section \<open>Stopping\<close>

definition stopTimerAndMarkStopped :: "residentInstance \<Rightarrow> residentInstance" where
  "stopTimerAndMarkStopped ri = (stop_if_set ri)\<lparr>ri_stopped := True\<rparr>"

text \<open>
  A section of \<open>drainAndStop\<close> either finds the Instance stopped, or waits for in-flight requests,
  or marks it stopped and goes on to unregister it and to stop the process.
\<close>

datatype drain_result = AlreadyStopped | DrainWaits | DrainStops

definition drain_loop :: "residentInstance \<Rightarrow> drain_result \<times> residentInstance" where
  "drain_loop ri =
     (if ri_activeCount ri > 0 \<and> \<not> ri_stopped ri then (DrainWaits, ri)
      else if ri_stopped ri then (AlreadyStopped, ri)
      else (DrainStops, ri\<lparr>ri_stopped := True\<rparr>))"

definition drain_enter :: "residentInstance \<Rightarrow> drain_result \<times> residentInstance" where
  "drain_enter ri =
     (if ri_stopped ri then (AlreadyStopped, ri)
      else let ri = stop_if_active ri
           in drain_loop (if ri_activeCount ri > 0 then ri\<lparr>ri_draining := True\<rparr> else ri))"

text \<open>\<open>onInstanceIdleTimeout\<close> up to its call of \<open>drainAndStop\<close>: whether it makes that call.\<close>

definition idle_timeout :: "residentInstance \<Rightarrow> bool \<times> residentInstance" where
  "idle_timeout ri =
     (if ri_stopped ri \<or> \<not> ri_timerActive ri then (False, ri)
      else (True, ri\<lparr>ri_timerActive := False\<rparr>))"

text \<open>The sections of \<open>SetModelTTL\<close> and of \<open>evictLRULocked\<close> on the Instance they found.\<close>

definition set_ttl :: "duration \<Rightarrow> time \<Rightarrow> residentInstance \<Rightarrow> residentInstance" where
  "set_ttl d now ri =
     (let ri = ri\<lparr>ri_ttl := d\<rparr>
      in if ri_activeCount ri = 0 \<and> \<not> ri_draining ri \<and> \<not> ri_stopped ri then
           (let ri = stop_if_set ri in if d > 0 then arm_timer d now ri else ri)
         else ri)"

definition mark_lru_victim :: "residentInstance \<Rightarrow> residentInstance" where
  "mark_lru_victim ri = stop_if_active (ri\<lparr>ri_draining := True\<rparr>)"

text \<open>A timer goes off: it is no longer armed, and its callback runs in a goroutine of its own.\<close>

definition fire_timer :: "residentInstance \<Rightarrow> residentInstance" where
  "fire_timer ri = ri\<lparr>ri_idleTimer := Some Unarmed\<rparr>"

section \<open>Goroutines on one Instance\<close>

text \<open>
  Where a goroutine stands: sleeping in \<open>acquire\<close> or in \<open>drainAndStop\<close> (and whether a broadcast
  has woken it), serving a request in a Slot, in a timer's callback before its section, at the
  start of \<open>drainAndStop\<close>, and after it marked the Instance stopped, before it has removed it from
  the registry, before it has stopped the process, and after.
\<close>

datatype place =
    AcquireSleeps bool
  | InSlot
  | TimerFired
  | DrainStarts
  | DrainSleeps bool
  | Unregisters
  | StopsProcess
  | ProcessStopped

fun wake :: "place \<Rightarrow> place" where
  "wake (AcquireSleeps _) = AcquireSleeps True"
| "wake (DrainSleeps _) = DrainSleeps True"
| "wake p = p"

type_synonym inst_state = "residentInstance \<times> place multiset"

text \<open>What a goroutine does after a section of \<open>acquire\<close> and of \<open>drainAndStop\<close>.\<close>

definition after_acquire :: "acquire_result \<Rightarrow> place multiset" where
  "after_acquire r = (case r of Returned True \<Rightarrow> {#InSlot#} | Returned False \<Rightarrow> {#} | Waits \<Rightarrow> {#AcquireSleeps False#})"

definition after_drain :: "drain_result \<Rightarrow> place multiset" where
  "after_drain r =
     (case r of AlreadyStopped \<Rightarrow> {#} | DrainWaits \<Rightarrow> {#DrainSleeps False#} | DrainStops \<Rightarrow> {#Unregisters#})"

inductive inst_step :: "inst_state \<Rightarrow> inst_state \<Rightarrow> bool" where
  step_acquire:
    "acquire c d c' d' now ri = (r, ri') \<Longrightarrow> inst_step (ri, T) (ri', T + after_acquire r)"
| step_acquire_wakes:
    "acquire_loop c d now ri = (r, ri') \<Longrightarrow>
     inst_step (ri, add_mset (AcquireSleeps True) T) (ri', T + after_acquire r)"
| step_ctx_done:
    "AcquireSleeps b \<in># T \<Longrightarrow> inst_step (ri, T) (ri, image_mset wake T)"
| step_release:
    "inst_step (ri, add_mset InSlot T) (release now ri, image_mset wake T)"
| step_mark_stopped:
    "inst_step (ri, T) (stopTimerAndMarkStopped ri, image_mset wake T)"
| step_drain_call:
    "inst_step (ri, T) (ri, add_mset DrainStarts T)"
| step_drain_enter:
    "drain_enter ri = (r, ri') \<Longrightarrow> inst_step (ri, add_mset DrainStarts T) (ri', T + after_drain r)"
| step_drain_wakes:
    "drain_loop ri = (r, ri') \<Longrightarrow>
     inst_step (ri, add_mset (DrainSleeps True) T) (ri', T + after_drain r)"
| step_unregister:
    "inst_step (ri, add_mset Unregisters T) (ri, add_mset StopsProcess T)"
| step_stop_process:
    "inst_step (ri, add_mset StopsProcess T) (ri, add_mset ProcessStopped T)"
| step_timer_fires:
    "ri_idleTimer ri = Some (Armed t) \<Longrightarrow> inst_step (ri, T) (fire_timer ri, add_mset TimerFired T)"
| step_timeout:
    "idle_timeout ri = (go, ri') \<Longrightarrow>
     inst_step (ri, add_mset TimerFired T) (ri', T + (if go then {#DrainStarts#} else {#}))"
| step_set_ttl:
    "inst_step (ri, T) (set_ttl d now ri, T)"
| step_lru_victim:
    "inst_step (ri, T) (mark_lru_victim ri, add_mset DrainStarts T)"

text \<open>An Instance is published by the goroutine that launched it, which holds its first Slot.\<close>

inductive inst_init :: "inst_state \<Rightarrow> bool" where
  "acquire c d c' d' now' (newResidentInstance modelID inst ttl maxSlots now) = (Returned True, ri) \<Longrightarrow>
   inst_init (ri, {#InSlot#})"

definition inst_reachable :: "inst_state \<Rightarrow> bool" where
  "inst_reachable s \<longleftrightarrow> (\<exists>s\<^sub>0. inst_init s\<^sub>0 \<and> inst_step\<^sup>*\<^sup>* s\<^sub>0 s)"

section \<open>Invariant\<close>

text \<open>
  Goroutines past the point of no return of a drain; the invariant: the active count is the number
  of requests in Slots and within the limit, a goroutine asleep without a wake-up has a reason to
  sleep, and a drain goes past that point at most once, when no request is in a Slot.
\<close>

definition stopping :: "place multiset \<Rightarrow> nat" where
  "stopping T = count T Unregisters + count T StopsProcess + count T ProcessStopped"

fun inst_ok :: "inst_state \<Rightarrow> bool" where
  "inst_ok (ri, T) \<longleftrightarrow>
     0 < ri_maxSlots ri \<and>
     ri_activeCount ri = int (count T InSlot) \<and>
     ri_activeCount ri \<le> ri_maxSlots ri \<and>
     (AcquireSleeps False \<in># T \<longrightarrow> ri_activeCount ri = ri_maxSlots ri \<and> \<not> ri_stopped ri) \<and>
     (DrainSleeps False \<in># T \<longrightarrow> 0 < ri_activeCount ri \<and> \<not> ri_stopped ri) \<and>
     stopping T \<le> 1 \<and>
     (stopping T = 1 \<longrightarrow> ri_stopped ri \<and> ri_activeCount ri = 0)"

declare inst_ok.simps [simp del]

lemma stop_simps [simp]:
  "ri_activeCount (stop_timer ri) = ri_activeCount ri"
  "ri_maxSlots (stop_timer ri) = ri_maxSlots ri"
  "ri_stopped (stop_timer ri) = ri_stopped ri"
  "ri_draining (stop_timer ri) = ri_draining ri"
  "ri_ttl (stop_timer ri) = ri_ttl ri"
  "ri_lastUsed (stop_timer ri) = ri_lastUsed ri"
  "ri_activeCount (stop_if_active ri) = ri_activeCount ri"
  "ri_maxSlots (stop_if_active ri) = ri_maxSlots ri"
  "ri_stopped (stop_if_active ri) = ri_stopped ri"
  "ri_draining (stop_if_active ri) = ri_draining ri"
  "ri_activeCount (stop_if_set ri) = ri_activeCount ri"
  "ri_maxSlots (stop_if_set ri) = ri_maxSlots ri"
  "ri_stopped (stop_if_set ri) = ri_stopped ri"
  "ri_draining (stop_if_set ri) = ri_draining ri"
  by (simp_all add: stop_timer_def stop_if_active_def stop_if_set_def)

lemma arm_simps [simp]:
  "ri_activeCount (arm_timer d now ri) = ri_activeCount ri"
  "ri_maxSlots (arm_timer d now ri) = ri_maxSlots ri"
  "ri_stopped (arm_timer d now ri) = ri_stopped ri"
  "ri_draining (arm_timer d now ri) = ri_draining ri"
  "ri_idleTimer (arm_timer d now ri) = Some (Armed (now + d))"
  by (simp_all add: arm_timer_def)

lemma section_simps [simp]:
  "ri_activeCount (acquire_grant now ri) = ri_activeCount ri + 1"
  "ri_maxSlots (acquire_grant now ri) = ri_maxSlots ri"
  "ri_stopped (acquire_grant now ri) = ri_stopped ri"
  "ri_draining (acquire_grant now ri) = ri_draining ri"
  "ri_activeCount (release now ri) = (if ri_activeCount ri > 0 then ri_activeCount ri - 1 else ri_activeCount ri)"
  "ri_maxSlots (release now ri) = ri_maxSlots ri"
  "ri_stopped (release now ri) = ri_stopped ri"
  "ri_draining (release now ri) = ri_draining ri"
  "ri_activeCount (stopTimerAndMarkStopped ri) = ri_activeCount ri"
  "ri_maxSlots (stopTimerAndMarkStopped ri) = ri_maxSlots ri"
  "ri_stopped (stopTimerAndMarkStopped ri)"
  "ri_draining (stopTimerAndMarkStopped ri) = ri_draining ri"
  "ri_activeCount (fire_timer ri) = ri_activeCount ri"
  "ri_maxSlots (fire_timer ri) = ri_maxSlots ri"
  "ri_stopped (fire_timer ri) = ri_stopped ri"
  "ri_draining (fire_timer ri) = ri_draining ri"
  "ri_activeCount (set_ttl d now ri) = ri_activeCount ri"
  "ri_maxSlots (set_ttl d now ri) = ri_maxSlots ri"
  "ri_stopped (set_ttl d now ri) = ri_stopped ri"
  "ri_draining (set_ttl d now ri) = ri_draining ri"
  "ri_activeCount (mark_lru_victim ri) = ri_activeCount ri"
  "ri_maxSlots (mark_lru_victim ri) = ri_maxSlots ri"
  "ri_stopped (mark_lru_victim ri) = ri_stopped ri"
  "ri_draining (mark_lru_victim ri)"
  by (simp_all add: acquire_grant_def release_def stopTimerAndMarkStopped_def fire_timer_def set_ttl_def
      mark_lru_victim_def Let_def)

text \<open>The sections with an outcome, by cases of the outcome.\<close>

lemma acquire_loop_cases:
  assumes "acquire_loop c d now ri = (r, ri')"
  obtains "r = Returned False" "ri' = ri" "unavailable c d ri"
  | "r = Waits" "ri' = ri" "ri_activeCount ri \<ge> ri_maxSlots ri" "\<not> unavailable c d ri"
  | "r = Returned True" "ri' = acquire_grant now ri" "ri_activeCount ri < ri_maxSlots ri"
    "\<not> unavailable c d ri"
  using assms by (auto simp: acquire_loop_def split: if_splits)

lemma acquire_is_loop:
  assumes "0 < ri_maxSlots ri"
  shows "acquire c d c' d' now ri =
    (if unavailable c d ri then (Returned False, ri) else acquire_loop c' d' now ri)"
  using assms by (simp add: acquire_def)

lemma drain_loop_cases:
  assumes "drain_loop ri = (r, ri')"
  obtains "r = AlreadyStopped" "ri' = ri" "ri_stopped ri"
  | "r = DrainWaits" "ri' = ri" "0 < ri_activeCount ri" "\<not> ri_stopped ri"
  | "r = DrainStops" "ri' = ri\<lparr>ri_stopped := True\<rparr>" "ri_activeCount ri \<le> 0" "\<not> ri_stopped ri"
  using assms by (auto simp: drain_loop_def split: if_splits)

text \<open>\<open>drain_enter\<close> changes the timer and possibly \<open>draining\<close>, then goes on as after a wake-up.\<close>

lemma drain_enter_loop:
  assumes "drain_enter ri = (r, ri')"
  obtains "r = AlreadyStopped" "ri' = ri" "ri_stopped ri"
  | ri\<^sub>1 where "drain_loop ri\<^sub>1 = (r, ri')" "ri_activeCount ri\<^sub>1 = ri_activeCount ri"
      "ri_maxSlots ri\<^sub>1 = ri_maxSlots ri" "ri_stopped ri\<^sub>1 = ri_stopped ri" "ri_draining ri \<longrightarrow> ri_draining ri\<^sub>1"
proof (cases "ri_stopped ri")
  case True
  with assms have "r = AlreadyStopped" "ri' = ri" by (simp_all add: drain_enter_def)
  then show ?thesis using True by (rule that(1))
next
  case False
  define ri\<^sub>1 where "ri\<^sub>1 =
    (if ri_activeCount ri > 0 then (stop_if_active ri)\<lparr>ri_draining := True\<rparr> else stop_if_active ri)"
  have "drain_loop ri\<^sub>1 = (r, ri')" using assms False by (simp add: drain_enter_def Let_def ri\<^sub>1_def)
  then show ?thesis by (rule that(2)) (simp_all add: ri\<^sub>1_def)
qed

lemma wake_eq_iff [simp]:
  "wake p = InSlot \<longleftrightarrow> p = InSlot"
  "wake p = Unregisters \<longleftrightarrow> p = Unregisters"
  "wake p = StopsProcess \<longleftrightarrow> p = StopsProcess"
  "wake p = ProcessStopped \<longleftrightarrow> p = ProcessStopped"
  "wake p \<noteq> AcquireSleeps False"
  "wake p \<noteq> DrainSleeps False"
  by (cases p; simp)+

lemma count_wake:
  "count (image_mset wake T) InSlot = count T InSlot"
  "stopping (image_mset wake T) = stopping T"
  "AcquireSleeps False \<notin># image_mset wake T"
  "DrainSleeps False \<notin># image_mset wake T"
proof -
  have c: "count (image_mset wake T) q = count T q" if "\<And>p. wake p = q \<longleftrightarrow> p = q" for q
    by (induction T) (auto simp: that)
  show "count (image_mset wake T) InSlot = count T InSlot" "stopping (image_mset wake T) = stopping T"
    by (simp_all add: c stopping_def)
  show "AcquireSleeps False \<notin># image_mset wake T" "DrainSleeps False \<notin># image_mset wake T"
    by (metis (no_types, lifting) imageE set_image_mset wake_eq_iff(5),
        metis (no_types, lifting) imageE set_image_mset wake_eq_iff(6))
qed

lemma stopping_simps [simp]:
  "stopping {#} = 0"
  "stopping (T + U) = stopping T + stopping U"
  "stopping (add_mset p T) =
     stopping T + (if p = Unregisters \<or> p = StopsProcess \<or> p = ProcessStopped then 1 else 0)"
  by (auto simp: stopping_def)

lemma inst_ok_wake:
  assumes "inst_ok (ri, T)" "ri_maxSlots ri' = ri_maxSlots ri" "ri_activeCount ri' = ri_activeCount ri"
    "ri_stopped ri \<longrightarrow> ri_stopped ri'"
  shows "inst_ok (ri', image_mset wake T)"
  using assms by (auto simp: inst_ok.simps count_wake simp del: set_image_mset)

lemma inst_ok_same:
  assumes "inst_ok (ri, T)" "ri_maxSlots ri' = ri_maxSlots ri" "ri_activeCount ri' = ri_activeCount ri"
    "ri_stopped ri' = ri_stopped ri"
  shows "inst_ok (ri', T)"
  using assms by (auto simp: inst_ok.simps)

lemma inst_ok_acquire_loop:
  assumes "inst_ok (ri, T)" "acquire_loop c d now ri = (r, ri')"
  shows "inst_ok (ri', T + after_acquire r)"
  using assms(2)
proof (cases rule: acquire_loop_cases)
  case 3
  with assms(1) show ?thesis by (auto simp: inst_ok.simps after_acquire_def unavailable_def)
qed (use assms(1) in \<open>auto simp: inst_ok.simps after_acquire_def unavailable_def\<close>)

lemma inst_ok_drain_loop:
  assumes "inst_ok (ri, T)" "drain_loop ri = (r, ri')"
  shows "inst_ok (ri', T + after_drain r)"
  using assms(2)
proof (cases rule: drain_loop_cases)
  case 3
  with assms(1) show ?thesis by (auto simp: inst_ok.simps after_drain_def)
qed (use assms(1) in \<open>auto simp: inst_ok.simps after_drain_def\<close>)

lemma inst_ok_remove:
  assumes "inst_ok (ri, add_mset p T)" "p \<noteq> InSlot" "p \<notin> {Unregisters, StopsProcess, ProcessStopped}"
  shows "inst_ok (ri, T)"
  using assms by (auto simp: inst_ok.simps)

lemma inst_ok_add:
  assumes "inst_ok (ri, T)" "p \<in> {TimerFired, DrainStarts}"
  shows "inst_ok (ri, add_mset p T)"
  using assms by (auto simp: inst_ok.simps)

lemma inst_ok_drain_enter:
  assumes "inst_ok (ri, T)" "drain_enter ri = (r, ri')"
  shows "inst_ok (ri', T + after_drain r)"
  using assms(2)
proof (cases rule: drain_enter_loop)
  case 1
  with assms(1) show ?thesis by (simp add: after_drain_def)
next
  case (2 ri\<^sub>1)
  then have "inst_ok (ri\<^sub>1, T)" using inst_ok_same [OF assms(1)] by simp
  then show ?thesis using 2(1) by (rule inst_ok_drain_loop)
qed

lemma inst_ok_release:
  assumes "inst_ok (ri, add_mset InSlot T)"
  shows "inst_ok (release now ri, image_mset wake T)"
  using assms by (auto simp: inst_ok.simps count_wake simp del: set_image_mset)

lemma inst_ok_timeout:
  assumes "inst_ok (ri, T)" "idle_timeout ri = (go, ri')"
  shows "inst_ok (ri', T + (if go then {#DrainStarts#} else {#}))"
  using assms by (auto simp: inst_ok.simps idle_timeout_def split: if_splits)

lemma inst_ok_init: "inst_init s \<Longrightarrow> inst_ok s"
proof (induction rule: inst_init.induct)
  case (1 c d c' d' now' modelID inst ttl maxSlots now ri)
  have "inst_ok (newResidentInstance modelID inst ttl maxSlots now, {#})"
    by (simp add: newResidentInstance_def inst_ok.simps)
  moreover have "acquire_loop c' d' now' (newResidentInstance modelID inst ttl maxSlots now) = (Returned True, ri)"
    using 1 by (subst (asm) acquire_is_loop) (simp_all add: newResidentInstance_def split: if_splits)
  ultimately have "inst_ok (ri, {#} + after_acquire (Returned True))" by (rule inst_ok_acquire_loop)
  then show ?case by (simp add: after_acquire_def)
qed

lemma inst_ok_step: "inst_step s s' \<Longrightarrow> inst_ok s \<Longrightarrow> inst_ok s'"
proof (induction rule: inst_step.induct)
  case (step_acquire c d c' d' now ri r ri' T)
  then have "0 < ri_maxSlots ri" by (simp add: inst_ok.simps)
  with step_acquire(1) consider "r = Returned False" "ri' = ri" | "acquire_loop c' d' now ri = (r, ri')"
    unfolding acquire_is_loop [OF \<open>0 < ri_maxSlots ri\<close>] by (metis prod.inject)
  then show ?case
  proof cases
    case 1
    then show ?thesis using step_acquire(2) by (simp add: after_acquire_def)
  next
    case 2
    then show ?thesis by (rule inst_ok_acquire_loop [OF step_acquire(2)])
  qed
next
  case (step_acquire_wakes c d now ri r ri' T)
  show ?case
    by (rule inst_ok_acquire_loop [OF inst_ok_remove [OF step_acquire_wakes(2)] step_acquire_wakes(1)]) simp_all
next
  case (step_ctx_done b T ri)
  then show ?case by (auto intro: inst_ok_wake)
next
  case (step_release ri T now)
  then show ?case by (rule inst_ok_release)
next
  case (step_mark_stopped ri T)
  then show ?case by (auto intro: inst_ok_wake)
next
  case (step_drain_call ri T)
  then show ?case by (auto intro: inst_ok_add)
next
  case (step_drain_enter ri r ri' T)
  show ?case
    by (rule inst_ok_drain_enter [OF inst_ok_remove [OF step_drain_enter(2)] step_drain_enter(1)]) simp_all
next
  case (step_drain_wakes ri r ri' T)
  show ?case
    by (rule inst_ok_drain_loop [OF inst_ok_remove [OF step_drain_wakes(2)] step_drain_wakes(1)]) simp_all
next
  case (step_unregister ri T)
  then show ?case by (auto simp: inst_ok.simps)
next
  case (step_stop_process ri T)
  then show ?case by (auto simp: inst_ok.simps)
next
  case (step_timer_fires ri t T)
  then show ?case using inst_ok_add inst_ok_same [of ri T "fire_timer ri"] by simp
next
  case (step_timeout ri go ri' T)
  show ?case
    by (rule inst_ok_timeout [OF inst_ok_remove [OF step_timeout(2)] step_timeout(1)]) simp_all
next
  case (step_set_ttl ri T d now)
  then show ?case using inst_ok_same [of ri T "set_ttl d now ri"] by simp
next
  case (step_lru_victim ri T)
  then show ?case using inst_ok_add inst_ok_same [of ri T "mark_lru_victim ri"] by simp
qed

interpretation inst: step_invariant inst_init inst_step inst_ok
  by unfold_locales (auto intro: inst_ok_init inst_ok_step)

lemma inst_reachable_ok: "inst_reachable s \<Longrightarrow> inst_ok s"
  unfolding inst_reachable_def using inst.inv_reachable by blast

lemma after_simps:
  "count (after_acquire r) InSlot = (if r = Returned True then 1 else 0)"
  "stopping (after_acquire r) = 0"
  "count (after_drain r') InSlot = 0"
  "stopping (after_drain r') = (if r' = DrainStops then 1 else 0)"
  by (auto simp: after_acquire_def after_drain_def split: acquire_result.split bool.split drain_result.split)

text \<open>Draining and stopping are final, and while either holds no request enters a Slot.\<close>

definition closing :: "residentInstance \<Rightarrow> bool" where
  "closing ri \<longleftrightarrow> ri_draining ri \<or> ri_stopped ri"

lemma closing_acquire:
  assumes "closing ri"
  shows "acquire_loop c d now ri = (Returned False, ri)"
    and "acquire c d c' d' now ri = (r, ri') \<Longrightarrow> r = Returned False \<and> closing ri'"
  using assms by (auto simp: closing_def acquire_def acquire_loop_def unavailable_def split: if_splits)

lemma closing_drain:
  "closing ri \<Longrightarrow> drain_loop ri = (r, ri') \<Longrightarrow> closing ri'"
  "closing ri \<Longrightarrow> drain_enter ri = (r, ri') \<Longrightarrow> closing ri'"
  by (auto simp: closing_def drain_enter_def drain_loop_def Let_def split: if_splits)

lemma closing_step:
  assumes "inst_step s s'" "closing (fst s)"
  shows "closing (fst s') \<and> count (snd s') InSlot \<le> count (snd s) InSlot"
  using assms
proof (induction rule: inst_step.induct)
  case (step_acquire c d c' d' now ri r ri' T)
  then show ?case using closing_acquire(2) [of ri c d c' d' now r ri'] by (simp add: after_simps)
next
  case (step_acquire_wakes c d now ri r ri' T)
  then show ?case by (auto simp: closing_acquire(1) after_simps)
next
  case (step_drain_enter ri r ri' T)
  then show ?case by (simp add: closing_drain(2) after_simps)
next
  case (step_drain_wakes ri r ri' T)
  then show ?case by (simp add: closing_drain(1) after_simps)
next
  case (step_timeout ri go ri' T)
  then show ?case by (auto simp: idle_timeout_def closing_def split: if_splits)
qed (simp_all add: closing_def count_wake)

lemma stopped_step: "inst_step s s' \<Longrightarrow> ri_stopped (fst s) \<Longrightarrow> ri_stopped (fst s')"
proof (induction rule: inst_step.induct)
  case (step_timeout ri go ri' T)
  then show ?case by (auto simp: idle_timeout_def)
qed (auto simp: acquire_def acquire_loop_def unavailable_def drain_enter_def drain_loop_def
    split: if_splits)

lemma closing_steps:
  assumes "inst_step\<^sup>*\<^sup>* s s'" "closing (fst s)"
  shows "closing (fst s') \<and> count (snd s') InSlot \<le> count (snd s) InSlot"
  using assms
proof (induction rule: rtranclp_induct)
  case (step t u)
  then show ?case using closing_step [of t u] by (meson order_trans)
qed simp

text \<open>
  Runs of the sections, for examples: a freshly published Instance, what its requests and drains
  do to it.
\<close>

definition fresh :: "duration \<Rightarrow> int \<Rightarrow> residentInstance" where
  "fresh ttl slots = acquire_grant 0 (newResidentInstance ''tiny:q4_0'' 7 ttl slots 0)"

lemma fresh_reachable: "0 < slots \<Longrightarrow> inst_reachable (fresh ttl slots, {#InSlot#})"
proof -
  assume "0 < slots"
  then have "acquire False False False False 0 (newResidentInstance ''tiny:q4_0'' 7 ttl slots 0) =
      (Returned True, fresh ttl slots)"
    by (simp add: fresh_def acquire_def acquire_loop_def unavailable_def newResidentInstance_def)
  then show ?thesis
    unfolding inst_reachable_def using inst_init.intros by blast
qed

lemma reachable_step: "inst_reachable s \<Longrightarrow> inst_step s s' \<Longrightarrow> inst_reachable s'"
  unfolding inst_reachable_def by (meson rtranclp.rtrancl_into_rtrancl)

lemmas run_defs =
  fresh_def newResidentInstance_def acquire_def acquire_loop_def unavailable_def acquire_grant_def
  release_def stop_if_active_def stop_timer_def arm_timer_def drain_enter_def drain_loop_def
  idle_timeout_def fire_timer_def Let_def

text \<open>One Slot, taken; a second request waits for it; a drain that waits; a drain that stops.\<close>

lemma sample_waiting: "inst_reachable (fresh 10 1, {#InSlot, AcquireSleeps False#})"
proof (rule reachable_step [OF fresh_reachable])
  have "acquire False False False False 3 (fresh 10 1) = (Waits, fresh 10 1)" by (simp add: run_defs)
  from step_acquire [OF this, of "{#InSlot#}"]
  show "inst_step (fresh 10 1, {#InSlot#}) (fresh 10 1, {#InSlot, AcquireSleeps False#})"
    by (simp add: after_acquire_def add_mset_commute)
qed simp

lemma sample_draining:
  "inst_reachable ((fresh 10 1)\<lparr>ri_draining := True\<rparr>, {#InSlot, DrainSleeps False#})"
proof (rule reachable_step [OF reachable_step [OF fresh_reachable step_drain_call]])
  have "drain_enter (fresh 10 1) = (DrainWaits, (fresh 10 1)\<lparr>ri_draining := True\<rparr>)" by (simp add: run_defs)
  from step_drain_enter [OF this, of "{#InSlot#}"]
  show "inst_step (fresh 10 1, {#DrainStarts, InSlot#})
          ((fresh 10 1)\<lparr>ri_draining := True\<rparr>, {#InSlot, DrainSleeps False#})"
    by (simp add: after_drain_def add_mset_commute)
qed simp

lemma sample_drained:
  "inst_reachable (release 5 ((fresh 10 1)\<lparr>ri_draining := True\<rparr>), {#DrainSleeps True#})"
  using reachable_step [OF sample_draining step_release [of _ "{#DrainSleeps False#}" 5]] by simp

lemma sample_stopping: "\<exists>ri. inst_reachable (ri, {#Unregisters#})"
proof -
  obtain ri' where "drain_loop (release 5 ((fresh 10 1)\<lparr>ri_draining := True\<rparr>)) = (DrainStops, ri')"
    by (simp add: run_defs)
  from reachable_step [OF sample_drained step_drain_wakes [OF this]]
  show ?thesis by (auto simp: after_drain_def)
qed

section \<open>Properties\<close>

text \<open>
  C3. Slots are never oversubscribed: however the goroutines of requests, drains, timers and
  administrative calls interleave, the active count of an Instance is the number of requests
  that hold a Slot, and it stays within the Slot count.
\<close>

theorem slots_respected:
  assumes "inst_reachable (ri, T)"
  shows "Occupancy ri = (int (count T InSlot), ri_maxSlots ri) \<and>
    int (count T InSlot) \<le> ri_maxSlots ri \<and> 0 < ri_maxSlots ri"
  using inst_reachable_ok [OF assms] by (simp add: inst_ok.simps Occupancy_def)

theorem slots_respected_witness:
  "inst_reachable (fresh 10 1, {#InSlot, AcquireSleeps False#}) \<and> Occupancy (fresh 10 1) = (1, 1)"
  using slots_respected [OF sample_waiting] sample_waiting
  by (simp add: fresh_def newResidentInstance_def)

text \<open>
  C13. A drain waits for the requests in flight: once a goroutine is past the wait of
  \<open>drainAndStop\<close> (about to unregister the Instance, about to stop the process, or done), the
  Instance is marked stopped, no request holds a Slot, none ever will again, and no second
  goroutine gets there, so the process is stopped by at most one drain.
\<close>

theorem drain_stops_once_and_idle:
  assumes "inst_reachable (ri, T)" "p \<in># T" "p \<in> {Unregisters, StopsProcess, ProcessStopped}"
  shows "ri_stopped ri \<and> count T InSlot = 0 \<and> stopping T = 1 \<and>
    (\<forall>ri' T'. inst_step\<^sup>*\<^sup>* (ri, T) (ri', T') \<longrightarrow> count T' InSlot = 0 \<and> stopping T' \<le> 1)"
proof -
  have ok: "inst_ok (ri, T)" by (rule inst_reachable_ok [OF assms(1)])
  from assms(2,3) have "stopping T > 0" by (auto simp: stopping_def)
  with ok have st: "ri_stopped ri" "count T InSlot = 0" "stopping T = 1"
    by (auto simp: inst_ok.simps)
  moreover have "count T' InSlot = 0 \<and> stopping T' \<le> 1" if "inst_step\<^sup>*\<^sup>* (ri, T) (ri', T')" for ri' T'
    using closing_steps [OF that] inst.inv_steps [OF that ok] st by (simp add: closing_def inst_ok.simps)
  ultimately show ?thesis by blast
qed

theorem drain_stops_once_and_idle_witness:
  "\<exists>ri. inst_reachable (ri, {#Unregisters#}) \<and> ri_stopped ri"
  using sample_stopping drain_stops_once_and_idle [of _ "{#Unregisters#}" Unregisters] by auto

text \<open>
  C14. No wake-up is lost: when no request holds a Slot, every goroutine that sleeps in
  \<open>acquire\<close> or \<open>drainAndStop\<close> has been woken, and its next section returns instead of sleeping
  again. So a sleeper always waits for some request that still has its release to come.
\<close>

theorem no_lost_wakeup:
  assumes "inst_reachable (ri, T)" "count T InSlot = 0"
  shows "AcquireSleeps False \<notin># T \<and> DrainSleeps False \<notin># T \<and>
    (\<forall>c d now. fst (acquire_loop c d now ri) \<noteq> Waits) \<and> fst (drain_loop ri) \<noteq> DrainWaits"
  using inst_reachable_ok [OF assms(1)] assms(2)
  by (auto simp: inst_ok.simps acquire_loop_def drain_loop_def)

theorem no_lost_wakeup_witness:
  "fst (drain_loop (release 5 ((fresh 10 1)\<lparr>ri_draining := True\<rparr>))) \<noteq> DrainWaits"
  using no_lost_wakeup [OF sample_drained] by simp

text \<open>
  Draining is final: from the moment an Instance is draining or stopped it stays so, and the
  number of requests in its Slots never grows, whatever is called on it afterwards.
\<close>

theorem closing_is_final:
  assumes "inst_step\<^sup>*\<^sup>* (ri, T) (ri', T')" "ri_draining ri \<or> ri_stopped ri"
  shows "(ri_draining ri' \<or> ri_stopped ri') \<and> count T' InSlot \<le> count T InSlot"
  using closing_steps [OF assms(1)] assms(2) by (simp add: closing_def)

theorem closing_is_final_witness:
  "ri_draining (release 5 ((fresh 10 1)\<lparr>ri_draining := True\<rparr>)) \<or>
   ri_stopped (release 5 ((fresh 10 1)\<lparr>ri_draining := True\<rparr>))"
  by (rule conjunct1 [OF closing_is_final
        [OF r_into_rtranclp [of inst_step, OF step_release [where T = "{#}"]]]])
     simp

text \<open>
  The last release of an Instance that is neither draining nor stopped arms the idle timer at
  exactly one TTL after the release, when the TTL is positive; and a granted Slot disarms an
  active timer, so that an Instance in use does not expire by its current timer.
\<close>

theorem idle_timer_follows_use:
  assumes "ri_activeCount ri = 1" "\<not> ri_draining ri" "\<not> ri_stopped ri" "0 < ri_ttl ri"
  shows "ri_idleTimer (release now ri) = Some (Armed (now + ri_ttl ri)) \<and>
    ri_timerActive (release now ri) \<and> ri_activeCount (release now ri) = 0 \<and>
    (0 < ri_maxSlots ri \<longrightarrow>
      (\<exists>ri'. acquire False False False False now' (release now ri) = (Returned True, ri') \<and>
         ri_idleTimer ri' = Some Unarmed \<and> \<not> ri_timerActive ri' \<and>
         ri_activeCount ri' = 1 \<and> ri_lastUsed ri' = now'))"
  using assms
  by (auto simp: release_def arm_timer_def Let_def acquire_def acquire_loop_def unavailable_def
      acquire_grant_def stop_if_active_def stop_timer_def)

theorem idle_timer_follows_use_witness:
  "ri_idleTimer (release 5 (fresh 10 1)) = Some (Armed 15)"
  using idle_timer_follows_use [of "fresh 10 1" 5 0] by (simp add: run_defs)

text \<open>
  The expiry reported for an idle Instance is not when it expires: with the timer armed at the
  last release for one TTL later, \<open>ExpiresAt\<close> adds the TTL to the current time, so the reported
  instant moves with the clock and lies after the deadline by the time since the release.
\<close>

theorem ExpiresAt_drifts:
  assumes "ri_activeCount ri = 1" "\<not> ri_draining ri" "\<not> ri_stopped ri" "0 < ri_ttl ri"
  shows "\<exists>deadline. ri_idleTimer (release now ri) = Some (Armed deadline) \<and>
    ExpiresAt (release now ri) (now + e) = deadline + e"
  using assms by (simp add: release_def arm_timer_def Let_def ExpiresAt_def stop_timer_def)

theorem ExpiresAt_drifts_witness:
  "ri_idleTimer (release 5 (fresh 10 1)) = Some (Armed 15) \<and> ExpiresAt (release 5 (fresh 10 1)) 12 = 22"
  using ExpiresAt_drifts [of "fresh 10 1" 5 7] by (auto simp: run_defs)

text \<open>
  A stale timer can evict an Instance that was just used: when a timer fires and, before its
  callback gets the mutex, a request takes and releases a Slot, the callback finds
  \<open>timerActive\<close> set again (by the new timer) and drains the Instance, although it was used at
  \<open>t\<close> and its current timer is armed for one whole TTL later.
\<close>

theorem stale_timer_evicts:
  assumes "0 < ttl"
  shows "\<exists>ri. inst_reachable (ri, {#Unregisters#}) \<and> ri_stopped ri \<and> ri_ttl ri = ttl \<and>
    ri_lastUsed ri = t \<and> ri_idleTimer ri = Some (Armed (t + ttl))"
proof -
  let ?a = "release (t - ttl) (fresh ttl 1)"
  have 1: "inst_reachable (?a, {#})"
    using reachable_step [OF fresh_reachable step_release [of _ "{#}" "t - ttl"], of 1 ttl] by simp
  have "ri_idleTimer ?a = Some (Armed t)" using assms by (simp add: run_defs)
  from reachable_step [OF 1 step_timer_fires [OF this]]
  have 2: "inst_reachable (fire_timer ?a, {#TimerFired#})" .
  obtain b where b: "acquire False False False False t (fire_timer ?a) = (Returned True, b)"
    using assms by (simp add: run_defs)
  from reachable_step [OF 2 step_acquire [OF b]]
  have "inst_reachable (b, add_mset InSlot {#TimerFired#})"
    by (simp add: after_acquire_def add_mset_commute)
  from reachable_step [OF this step_release [of _ _ t]]
  have 3: "inst_reachable (release t b, {#TimerFired#})" by simp
  obtain c where c: "idle_timeout (release t b) = (True, c)"
    using assms b by (auto simp: run_defs)
  from reachable_step [OF 3 step_timeout [OF c]]
  have 4: "inst_reachable (c, {#DrainStarts#})" by simp
  obtain e where e: "drain_enter c = (DrainStops, e)" "ri_stopped e" "ri_ttl e = ttl" "ri_lastUsed e = t"
      "ri_idleTimer e = Some (Armed (t + ttl))"
    using assms b c by (auto simp: run_defs)
  from reachable_step [OF 4 step_drain_enter [OF e(1)]] e(2-)
  show ?thesis by (auto simp: after_drain_def)
qed

theorem stale_timer_evicts_witness:
  "\<exists>ri. inst_reachable (ri, {#Unregisters#}) \<and> ri_lastUsed ri = 20 \<and> ri_idleTimer ri = Some (Armed 30)"
  using stale_timer_evicts [of 10 20] by auto

end
