(* ===== verification/Host.thy ===== *)
theory Host
  imports Go_Prelude
begin

text \<open>
  The Host boundary, \<open>src/internal/host/host.go\<close>: errors with their wrapping chains, the
  classification of process failures, and the machine as the Supervisor sees it. The machine
  itself (hardware, child processes, clock, contexts) is a record of functions, one answer for
  each time it is asked; nothing is assumed about the answers here.
\<close>

section \<open>Errors\<close>

text \<open>
  A Go error: one made by \<open>errors.New\<close> (or any error with only a text), the two errors of package
  \<open>context\<close>, one wrapped by \<open>fmt.Errorf\<close> with a prefix and \<open>%w\<close>, or a \<open>*ProcessError\<close>.
\<close>

datatype go_error =
    ErrNew string
  | ErrCanceled
  | ErrDeadline
  | ErrWrap string go_error
  | ErrProcess ProcessError
and ProcessError =
    ProcessError (ExitCode: int) (OOM: bool) (Stderr: string) (Err: "go_error option")

fun Error :: "go_error \<Rightarrow> string" and ProcessError_Error :: "ProcessError \<Rightarrow> string" where
  "Error (ErrNew s) = s"
| "Error ErrCanceled = ''context canceled''"
| "Error ErrDeadline = ''context deadline exceeded''"
| "Error (ErrWrap p e) = p @ '': '' @ Error e"
| "Error (ErrProcess pe) = ProcessError_Error pe"
| "ProcessError_Error (ProcessError code oom stderr err) =
     (if oom then
        (if code \<noteq> 0
         then ''instance terminated due to out-of-memory (exit code '' @ Itoa code @ '')''
         else ''instance terminated due to out-of-memory'')
      else if code \<noteq> 0 then ''instance crashed (exit code '' @ Itoa code @ '')''
      else (case err of
              Some e \<Rightarrow> ''instance terminated: '' @ Error e
            | None \<Rightarrow> ''instance terminated''))"

text \<open>\<open>errors.Unwrap\<close>, with the \<open>Unwrap\<close> method of \<open>ProcessError\<close>.\<close>

fun Unwrap :: "go_error \<Rightarrow> go_error option" where
  "Unwrap (ErrWrap _ e) = Some e"
| "Unwrap (ErrProcess pe) = Err pe"
| "Unwrap _ = None"

text \<open>\<open>errors.As(err, &pe)\<close> for a \<open>*ProcessError\<close>: the first one of the chain.\<close>

fun as_ProcessError :: "go_error \<Rightarrow> ProcessError option" where
  "as_ProcessError (ErrProcess pe) = Some pe"
| "as_ProcessError (ErrWrap _ e) = as_ProcessError e"
| "as_ProcessError _ = None"

text \<open>\<open>errors.Is(err, context.Canceled)\<close>.\<close>

fun is_Canceled :: "go_error \<Rightarrow> bool" and pe_is_Canceled :: "ProcessError \<Rightarrow> bool" where
  "is_Canceled ErrCanceled \<longleftrightarrow> True"
| "is_Canceled (ErrNew _) \<longleftrightarrow> False"
| "is_Canceled ErrDeadline \<longleftrightarrow> False"
| "is_Canceled (ErrWrap _ e) \<longleftrightarrow> is_Canceled e"
| "is_Canceled (ErrProcess pe) \<longleftrightarrow> pe_is_Canceled pe"
| "pe_is_Canceled (ProcessError _ _ _ err) \<longleftrightarrow> (case err of Some e \<Rightarrow> is_Canceled e | None \<Rightarrow> False)"

definition IsOOM :: "go_error option \<Rightarrow> bool" where
  "IsOOM err =
     (case err of
        None \<Rightarrow> False
      | Some e \<Rightarrow> (case as_ProcessError e of Some pe \<Rightarrow> OOM pe | None \<Rightarrow> False))"

section \<open>The machine\<close>

record Accelerator =
  acc_ID :: string
  acc_Name :: string
  acc_TotalMemory :: int

record Allocation =
  VRAM :: int
  RAM :: int

text \<open>What becomes of a launch: no process, a process that never becomes ready, or a ready one.\<close>

datatype launch_outcome = LaunchFails go_error | NotReady go_error | Ready

text \<open>
  The answers of the machine. A process is named by its number, the count of launches before it;
  \<open>e_launch n argv\<close> is what becomes of launch \<open>n\<close>, \<open>e_stop n\<close> what \<open>Stop\<close> on process \<open>n\<close>
  returns, \<open>e_alloc n\<close> its observed allocation. \<open>e_load\<close> and \<open>e_budget\<close> are what \<open>Err()\<close> of the
  load's context and of the Tuning budget's context return, and \<open>e_time\<close> the clock, each by the
  number of times contexts and clock have been looked at before. The last six tell whether the
  file operations of the Tuning cache succeed, those of a save by the same number, reading and
  removing the file when the Supervisor starts.
\<close>

record machine =
  e_fingerprint :: string
  e_launch :: "nat \<Rightarrow> string list \<Rightarrow> launch_outcome"
  e_stop :: "nat \<Rightarrow> go_error option"
  e_alloc :: "nat \<Rightarrow> Allocation"
  e_load :: "nat \<Rightarrow> go_error option"
  e_budget :: "nat \<Rightarrow> go_error option"
  e_time :: "nat \<Rightarrow> int"
  e_marshal :: "nat \<Rightarrow> bool"
  e_mkdir :: "nat \<Rightarrow> bool"
  e_write :: "nat \<Rightarrow> bool"
  e_rename :: "nat \<Rightarrow> bool"
  e_read :: bool
  e_remove :: bool

section \<open>Lemmas\<close>

text \<open>Wrapping with \<open>%w\<close> hides neither an out-of-memory failure nor a cancellation.\<close>

lemma IsOOM_wrap [simp]: "IsOOM (Some (ErrWrap p e)) = IsOOM (Some e)"
  by (simp add: IsOOM_def)

lemma IsOOM_process [simp]: "IsOOM (Some (ErrProcess pe)) = OOM pe"
  by (simp add: IsOOM_def)

section \<open>The contract of an Instance\<close>

text \<open>
  What the comments of the interface \<open>Instance\<close> promise of \<open>Done\<close> and \<open>Err\<close>: an Instance starts
  without an error and with \<open>Done\<close> open, and the error is set no earlier than \<open>Done\<close> is closed and not
  changed afterwards.
\<close>

locale host_instance =
  fixes starts :: "'i \<Rightarrow> bool" and step :: "'i \<Rightarrow> 'i \<Rightarrow> bool" and closed :: "'i \<Rightarrow> bool"
    and err :: "'i \<Rightarrow> 'e option"
  assumes fresh: "starts i \<Longrightarrow> \<not> closed i \<and> err i = None"
    and unset: "step i j \<Longrightarrow> \<not> closed j \<Longrightarrow> err j = err i"
    and final: "step i j \<Longrightarrow> closed i \<Longrightarrow> closed j \<and> err j = err i"
begin

lemma verdict_final: "step\<^sup>*\<^sup>* i j \<Longrightarrow> closed i \<Longrightarrow> closed j \<and> err j = err i"
  by (induction rule: rtranclp_induct) (auto dest: final)

lemma no_early_verdict: "step\<^sup>*\<^sup>* i j \<Longrightarrow> starts i \<Longrightarrow> \<not> closed j \<Longrightarrow> err j = None"
proof (induction rule: rtranclp_induct)
  case base
  then show ?case using fresh by blast
next
  case (step j k)
  then show ?case using final [of j k] unset [of j k] by auto
qed

text \<open>Who has seen \<open>Done\<close> closed reads the same error at any later time.\<close>

lemma stable_reading: "step\<^sup>*\<^sup>* i j \<Longrightarrow> step\<^sup>*\<^sup>* i k \<Longrightarrow> closed i \<Longrightarrow> err j = err k"
  using verdict_final by metis

end

section \<open>Properties\<close>

text \<open>
  The classification of a failure survives any number of wrappings: the error of a process is
  an out-of-memory failure exactly when its own flag says so, however many layers of
  \<open>fmt.Errorf\<close> lie above it, and an error without a \<open>ProcessError\<close> in its chain never is.
\<close>

theorem IsOOM_chain:
  "IsOOM (Some (foldr ErrWrap ps e)) =
     (case as_ProcessError e of Some pe \<Rightarrow> OOM pe | None \<Rightarrow> False)"
  by (induction ps) (simp_all add: IsOOM_def)

end
