(* ===== verification/Json.thy ===== *)
theory Json
  imports Resident Host
begin

text \<open>
  JSON values and HTTP responses, as the handlers of \<open>src/internal/supervisor\<close> use
  \<open>encoding/json\<close> and \<open>net/http\<close>. The text of a JSON document is represented by the value it
  denotes; decoding into a structure (matching of keys, \<open>null\<close>, type mismatches) and encoding of
  structures are written out. A response is its status, its content type and its body.
\<close>

section \<open>Values\<close>

text \<open>
  \<open>JInt\<close> is a number written without fraction and exponent, \<open>JNum\<close> any other number, by the bits
  of its \<open>float64\<close>. \<open>JTime\<close> is a \<open>time.Time\<close>, which is written in RFC 3339, and \<open>JSeconds\<close> a
  duration, written as a number of seconds. The members of an object are in the order of the text.
\<close>

datatype json =
    JNull
  | JBool bool
  | JInt int
  | JNum u64
  | JStr string
  | JTime time
  | JSeconds duration
  | JArr "json list"
  | JObj "(string \<times> json) list"

section \<open>Decoding\<close>

text \<open>
  A member of the object is stored in the field whose name it has, in any letter case; a later
  member overwrites an earlier one. \<open>f v a\<close> stores the value \<open>v\<close> in a field that holds \<open>a\<close>;
  \<^const>\<open>None\<close> is a type mismatch, on which \<open>Unmarshal\<close> fails.
\<close>

definition dec_field :: "(json \<Rightarrow> 'a \<Rightarrow> 'a option) \<Rightarrow> string \<Rightarrow> 'a \<Rightarrow> (string \<times> json) list \<Rightarrow> 'a option" where
  "dec_field f name a kvs =
     foldl (\<lambda>acc (k, v). if EqualFold k name then Option.bind acc (f v) else acc) (Some a) kvs"

fun dec_str :: "json \<Rightarrow> string \<Rightarrow> string option" where
  "dec_str (JStr s) a = Some s"
| "dec_str JNull a = Some a"
| "dec_str _ a = None"

text \<open>A \<open>*bool\<close>, a \<open>*string\<close> and an \<open>int\<close>.\<close>

fun dec_bool_ptr :: "json \<Rightarrow> bool option \<Rightarrow> bool option option" where
  "dec_bool_ptr (JBool b) a = Some (Some b)"
| "dec_bool_ptr JNull a = Some None"
| "dec_bool_ptr _ a = None"

fun dec_str_ptr :: "json \<Rightarrow> string option \<Rightarrow> string option option" where
  "dec_str_ptr (JStr s) a = Some (Some s)"
| "dec_str_ptr JNull a = Some None"
| "dec_str_ptr _ a = None"

fun dec_int :: "json \<Rightarrow> int \<Rightarrow> int option" where
  "dec_int (JInt i) a = (if min_int64 \<le> i \<and> i \<le> max_int64 then Some i else None)"
| "dec_int JNull a = Some a"
| "dec_int _ a = None"

text \<open>A \<open>uint64\<close> and a \<open>time.Time\<close>.\<close>

fun dec_u64 :: "json \<Rightarrow> u64 \<Rightarrow> u64 option" where
  "dec_u64 (JInt i) a = (if 0 \<le> i \<and> i < 2 ^ 64 then Some (word_of_int i) else None)"
| "dec_u64 JNull a = Some a"
| "dec_u64 _ a = None"

fun dec_time :: "json \<Rightarrow> time \<Rightarrow> time option" where
  "dec_time (JTime t) a = Some t"
| "dec_time JNull a = Some a"
| "dec_time _ a = None"

text \<open>An \<open>any\<close>, where \<open>null\<close> is \<open>nil\<close>, and a \<open>json.RawMessage\<close>, which also keeps a \<open>null\<close>.\<close>

fun dec_any :: "json \<Rightarrow> json option \<Rightarrow> json option option" where
  "dec_any JNull a = Some None"
| "dec_any v a = Some (Some v)"

definition dec_raw :: "json \<Rightarrow> json option \<Rightarrow> json option option" where
  "dec_raw v a = Some (Some v)"

text \<open>A structure: the members of an object; a \<open>null\<close> leaves it as it is.\<close>

fun dec_struct :: "((string \<times> json) list \<Rightarrow> 'a option) \<Rightarrow> json \<Rightarrow> 'a option" where
  "dec_struct f (JObj kvs) = f kvs"
| "dec_struct f JNull = f []"
| "dec_struct f _ = None"

text \<open>
  A string is encoded as UTF-8: \<open>rune_len\<close> is the length of the valid encoding of a character a
  string begins with, and each byte that is not part of one becomes U+FFFD.
\<close>

definition rune_len :: "string \<Rightarrow> nat option" where
  "rune_len s =
     (let b = (\<lambda>i. of_char (s ! i) :: nat);
          cont = (\<lambda>i lo hi. i < length s \<and> lo \<le> b i \<and> b i \<le> hi)
      in if s = [] then None
         else if b 0 < 0x80 then Some 1
         else if 0xC2 \<le> b 0 \<and> b 0 \<le> 0xDF then (if cont 1 0x80 0xBF then Some 2 else None)
         else if 0xE0 \<le> b 0 \<and> b 0 \<le> 0xEF then
           (if cont 1 (if b 0 = 0xE0 then 0xA0 else 0x80) (if b 0 = 0xED then 0x9F else 0xBF) \<and> cont 2 0x80 0xBF
            then Some 3 else None)
         else if 0xF0 \<le> b 0 \<and> b 0 \<le> 0xF4 then
           (if cont 1 (if b 0 = 0xF0 then 0x90 else 0x80) (if b 0 = 0xF4 then 0x8F else 0xBF) \<and>
               cont 2 0x80 0xBF \<and> cont 3 0x80 0xBF
            then Some 4 else None)
         else None)"

fun utf8_from :: "nat \<Rightarrow> string \<Rightarrow> string" where
  "utf8_from k [] = []"
| "utf8_from (Suc k) (c # s) = c # utf8_from k s"
| "utf8_from 0 (c # s) =
     (case rune_len (c # s) of
        Some n \<Rightarrow> c # utf8_from (n - 1) s
      | None \<Rightarrow> [CHR 0xEF, CHR 0xBF, CHR 0xBD] @ utf8_from 0 s)"

definition enc_str :: "string \<Rightarrow> json" where
  "enc_str s = JStr (utf8_from 0 s)"

definition valid_utf8 :: "string \<Rightarrow> bool" where
  "valid_utf8 s \<longleftrightarrow> utf8_from 0 s = s"

section \<open>Responses\<close>

text \<open>\<open>Silent\<close> is a handler that returns without writing, for a client that is gone.\<close>

datatype response = Silent | Reply (status: int) (ctype: string) (body: "json list")

definition writeJSON :: "int \<Rightarrow> json \<Rightarrow> response" where
  "writeJSON st b = Reply st ''application/json'' [b]"

definition StatusOK :: int where "StatusOK = 200"
definition StatusBadRequest :: int where "StatusBadRequest = 400"
definition StatusNotFound :: int where "StatusNotFound = 404"
definition StatusMethodNotAllowed :: int where "StatusMethodNotAllowed = 405"
definition StatusInternalServerError :: int where "StatusInternalServerError = 500"
definition StatusServiceUnavailable :: int where "StatusServiceUnavailable = 503"

lemmas status_defs = StatusOK_def StatusBadRequest_def StatusNotFound_def StatusMethodNotAllowed_def
  StatusInternalServerError_def StatusServiceUnavailable_def

section \<open>Formatting\<close>

text \<open>The verb \<open>%q\<close>; a byte of a multi-byte character stands for itself.\<close>

definition quote_char :: "char \<Rightarrow> string" where
  "quote_char c =
     (let n = of_char c :: nat; esc = CHR 0x5C in
      if c = CHR 0x22 \<or> c = esc then [esc, c]
      else if n = 7 then [esc, CHR ''a'']
      else if n = 8 then [esc, CHR ''b'']
      else if n = 12 then [esc, CHR ''f'']
      else if n = 10 then [esc, CHR ''n'']
      else if n = 13 then [esc, CHR ''r'']
      else if n = 9 then [esc, CHR ''t'']
      else if n = 11 then [esc, CHR ''v'']
      else if n < 32 \<or> n = 127 then [esc, CHR ''x'', hex_digit (n div 16), hex_digit (n mod 16)]
      else [c])"

definition Quote :: "string \<Rightarrow> string" where
  "Quote s = [CHR 0x22] @ concat (map quote_char s) @ [CHR 0x22]"

section \<open>Lemmas\<close>

lemma enc_valid: "valid_utf8 s \<Longrightarrow> enc_str s = JStr s"
  by (simp add: enc_str_def valid_utf8_def)

text \<open>ASCII text is valid.\<close>

lemma valid_utf8_ascii: "list_all (\<lambda>c. (of_char c :: nat) < 0x80) s \<Longrightarrow> valid_utf8 s"
  unfolding valid_utf8_def by (induction s) (simp_all add: rune_len_def)

lemma dec_field_Nil [simp]: "dec_field f name a [] = Some a"
  by (simp add: dec_field_def)

text \<open>A member under another name does not matter; the last one under the name decides.\<close>

lemma dec_field_snoc:
  "dec_field f name a (kvs @ [(k, v)]) =
     (if EqualFold k name then Option.bind (dec_field f name a kvs) (f v) else dec_field f name a kvs)"
  by (simp add: dec_field_def)

end
