(* ===== verification/State.thy ===== *)
theory State
  imports Resident Json
begin

text \<open>
  The Supervisor's state and construction: the structures \<open>TuningEntry\<close>, \<open>TuningCacheFile\<close> and
  \<open>Supervisor\<close> of \<open>src/internal/supervisor/supervisor.go\<close>, its options, \<open>NewWithOpts\<close>, and the
  Tuning cache on disk (\<open>loadTuningCache\<close>, \<open>saveTuningCacheLocked\<close>) with its encoding to JSON and
  back. The text of a JSON file is represented by the value it denotes.
\<close>

section \<open>Data\<close>

record TuningEntry =
  te_ModelID :: string
  te_ModelDigest :: string
  te_Fingerprint :: string
  te_RequestedCtx :: u64
  te_KVCacheType :: string
  te_Offload :: u64
  te_ResultingCtx :: u64
  te_Allocation :: Allocation
  te_MeasuredAt :: time

record TuningCacheFile =
  cf_Fingerprint :: string
  cf_Entries :: "string \<rightharpoonup> TuningEntry"

text \<open>A file of the cache directory: a JSON document, or text that is none.\<close>

datatype cache_text = CacheJSON json | Unparsable

text \<open>
  The Supervisor. The map \<open>instances\<close> is an association list of IDs and addresses of
  \<^typ>\<open>residentInstance\<close>s, in the order in which a \<open>range\<close> visits it. The load registry
  \<open>loading\<close> and the goroutine handles are no part of this record.
\<close>

record Supervisor =
  s_models :: "string \<rightharpoonup> Model"
  s_modelsList :: "Model list"
  s_instances :: "(string \<times> nat) list"
  s_tuned :: "string \<rightharpoonup> TuningEntry"
  s_tuningActiveModel :: string
  s_tuningStartedAt :: time
  s_tuningCurrentCtx :: u64
  s_tuningCurrentOffload :: u64
  s_tuningProbeCount :: int
  s_cachePath :: string
  s_tuningBudget :: duration
  s_defaultTTL :: duration
  s_modelTTLs :: "string \<rightharpoonup> duration"
  s_maxInstances :: int
  s_slotsPerInstance :: int
  s_configPath :: string
  s_config :: "string \<rightharpoonup> ModelConfig"
  s_configTTL :: "string \<rightharpoonup> duration"
  s_dirs :: "string list"
  s_rescanInterval :: duration
  s_closed :: bool

text \<open>
  The context a process was launched with, which \<open>exec.CommandContext\<close> ties its life to: that of a
  load, that of a Tuning budget, one \<open>fallback\<close> makes for itself, or one that has been cancelled.
\<close>

datatype launch_ctx = LoadCtx | BudgetCtx | FallbackCtx | EndedCtx

text \<open>
  What the code changes: the Supervisor, the resident Instances by address, the files, the
  processes that run, the command lines launched so far with the state of the context of each, and
  how often contexts and clock have been looked at.
\<close>

record world =
  w_sup :: Supervisor
  w_residents :: "nat \<rightharpoonup> residentInstance"
  w_files :: "string \<rightharpoonup> cache_text"
  w_running :: "nat list"
  w_launches :: "string list list"
  w_contexts :: "launch_ctx list"
  w_tick :: nat

section \<open>Options\<close>

datatype Option =
    WithCachePath string
  | WithConfigFile string
  | WithRescanInterval duration
  | WithTuningBudget duration
  | WithDefaultTTL duration
  | WithTTL duration
  | WithModelTTL string duration
  | WithMaxInstances int
  | WithMaxResidentInstances int
  | WithSlotsPerInstance int

fun apply_option :: "Supervisor \<Rightarrow> Option \<Rightarrow> Supervisor" where
  "apply_option s (WithCachePath path) = s\<lparr>s_cachePath := path\<rparr>"
| "apply_option s (WithConfigFile path) = s\<lparr>s_configPath := path\<rparr>"
| "apply_option s (WithRescanInterval d) = s\<lparr>s_rescanInterval := d\<rparr>"
| "apply_option s (WithTuningBudget d) = s\<lparr>s_tuningBudget := d\<rparr>"
| "apply_option s (WithDefaultTTL d) = s\<lparr>s_defaultTTL := d\<rparr>"
| "apply_option s (WithTTL d) = s\<lparr>s_defaultTTL := d\<rparr>"
| "apply_option s (WithModelTTL modelRef d) = s\<lparr>s_modelTTLs := (s_modelTTLs s)(modelRef \<mapsto> d)\<rparr>"
| "apply_option s (WithMaxInstances n) = s\<lparr>s_maxInstances := n\<rparr>"
| "apply_option s (WithMaxResidentInstances n) = s\<lparr>s_maxInstances := n\<rparr>"
| "apply_option s (WithSlotsPerInstance n) = s\<lparr>s_slotsPerInstance := (if n \<le> 0 then 1 else n)\<rparr>"

section \<open>The Tuning cache on disk\<close>

type_synonym files = "string \<rightharpoonup> cache_text"

text \<open>
  Encoding, by the tags of \<open>TuningEntry\<close>, \<open>Allocation\<close> and \<open>TuningCacheFile\<close>; a map is written in the
  order of its keys.
\<close>

definition json_of_entry :: "TuningEntry \<Rightarrow> json" where
  "json_of_entry te =
     JObj [(''model_id'', enc_str (te_ModelID te)), (''model_digest'', enc_str (te_ModelDigest te)),
           (''fingerprint'', enc_str (te_Fingerprint te)), (''requested_ctx'', JInt (uint (te_RequestedCtx te))),
           (''kv_cache_type'', enc_str (te_KVCacheType te)), (''offload'', JInt (uint (te_Offload te))),
           (''resulting_ctx'', JInt (uint (te_ResultingCtx te))),
           (''allocation'', JObj [(''vram'', JInt (VRAM (te_Allocation te))), (''ram'', JInt (RAM (te_Allocation te)))]),
           (''measured_at'', JTime (te_MeasuredAt te))]"

definition json_of_cacheFile :: "TuningCacheFile \<Rightarrow> json" where
  "json_of_cacheFile cf =
     JObj [(''fingerprint'', enc_str (cf_Fingerprint cf)),
           (''entries'', JObj (map (\<lambda>i. (utf8_from 0 i, json_of_entry (the (cf_Entries cf i))))
              (sorted_list_of_set (dom (cf_Entries cf)))))]"

text \<open>Decoding, by the same tags: a missing member leaves its field at zero.\<close>

definition dec_allocation :: "json \<Rightarrow> Allocation \<Rightarrow> Allocation option" where
  "dec_allocation v a =
     (case v of
        JNull \<Rightarrow> Some a
      | JObj kvs \<Rightarrow>
          Option.bind (dec_field dec_int ''vram'' (VRAM a) kvs) (\<lambda>vram.
          Option.bind (dec_field dec_int ''ram'' (RAM a) kvs) (\<lambda>ram. Some \<lparr>VRAM = vram, RAM = ram\<rparr>))
      | _ \<Rightarrow> None)"

definition dec_entry :: "json \<Rightarrow> TuningEntry option" where
  "dec_entry v = dec_struct (\<lambda>kvs.
     Option.bind (dec_field dec_str ''model_id'' [] kvs) (\<lambda>modelID.
     Option.bind (dec_field dec_str ''model_digest'' [] kvs) (\<lambda>modelDigest.
     Option.bind (dec_field dec_str ''fingerprint'' [] kvs) (\<lambda>fingerprint.
     Option.bind (dec_field dec_u64 ''requested_ctx'' 0 kvs) (\<lambda>requestedCtx.
     Option.bind (dec_field dec_str ''kv_cache_type'' [] kvs) (\<lambda>kvCacheType.
     Option.bind (dec_field dec_u64 ''offload'' 0 kvs) (\<lambda>offload.
     Option.bind (dec_field dec_u64 ''resulting_ctx'' 0 kvs) (\<lambda>resultingCtx.
     Option.bind (dec_field dec_allocation ''allocation'' \<lparr>VRAM = 0, RAM = 0\<rparr> kvs) (\<lambda>allocation.
     Option.bind (dec_field dec_time ''measured_at'' 0 kvs) (\<lambda>measuredAt.
       Some \<lparr>te_ModelID = modelID, te_ModelDigest = modelDigest, te_Fingerprint = fingerprint,
         te_RequestedCtx = requestedCtx, te_KVCacheType = kvCacheType, te_Offload = offload,
         te_ResultingCtx = resultingCtx, te_Allocation = allocation, te_MeasuredAt = measuredAt\<rparr>)))))))))) v"

definition dec_entries :: "json \<Rightarrow> (string \<rightharpoonup> TuningEntry) \<Rightarrow> (string \<rightharpoonup> TuningEntry) option" where
  "dec_entries v a =
     (case v of
        JNull \<Rightarrow> Some Map.empty
      | JObj kvs \<Rightarrow>
          foldl (\<lambda>acc (i, u). Option.bind acc (\<lambda>m. map_option (\<lambda>entry. m(i \<mapsto> entry)) (dec_entry u))) (Some a) kvs
      | _ \<Rightarrow> None)"

definition dec_cacheFile :: "json \<Rightarrow> TuningCacheFile option" where
  "dec_cacheFile v = dec_struct (\<lambda>kvs.
     Option.bind (dec_field dec_str ''fingerprint'' [] kvs) (\<lambda>fingerprint.
     Option.bind (dec_field dec_entries ''entries'' Map.empty kvs) (\<lambda>entries.
       Some \<lparr>cf_Fingerprint = fingerprint, cf_Entries = entries\<rparr>))) v"

text \<open>
  The map \<open>tuned\<close> and the files after \<open>loadTuningCache\<close>. A file that cannot be read is left alone; one
  that does not decode, or is of other hardware, is removed, which may fail.
\<close>

definition drop_file :: "machine \<Rightarrow> string \<Rightarrow> files \<Rightarrow> files" where
  "drop_file e path files = (if e_remove e then files(path := None) else files)"

definition loadTuningCache ::
  "machine \<Rightarrow> string \<Rightarrow> files \<Rightarrow> (string \<rightharpoonup> TuningEntry) \<Rightarrow> (string \<rightharpoonup> TuningEntry) \<times> files"
where
  "loadTuningCache e cachePath files tuned =
     (if cachePath = [] then (tuned, files)
      else (case (if e_read e then files cachePath else None) of
              None \<Rightarrow> (tuned, files)
            | Some text \<Rightarrow>
                (case (case text of CacheJSON v \<Rightarrow> dec_cacheFile v | Unparsable \<Rightarrow> None) of
                   None \<Rightarrow> (tuned, drop_file e cachePath files)
                 | Some cacheFile \<Rightarrow>
                     (let fp = e_fingerprint e
                      in if cf_Fingerprint cacheFile \<noteq> fp then (tuned, drop_file e cachePath files)
                         else (\<lambda>id. (case cf_Entries cacheFile id of
                                       Some entry \<Rightarrow> if te_Fingerprint entry = fp then Some entry else tuned id
                                     | None \<Rightarrow> tuned id),
                               files)))))"

definition path_Dir :: "string \<Rightarrow> string" where
  "path_Dir p = Clean (rev (dropWhile (\<lambda>c. c \<noteq> CHR ''/'') (rev p)))"

text \<open>
  The files after \<open>saveTuningCacheLocked\<close>, which writes a temporary file and renames it. A failed
  write may leave a truncated temporary file.
\<close>

definition saveTuningCacheLocked ::
  "machine \<Rightarrow> nat \<Rightarrow> string \<Rightarrow> (string \<rightharpoonup> TuningEntry) \<Rightarrow> files \<Rightarrow> files"
where
  "saveTuningCacheLocked e t cachePath tuned files =
     (if cachePath = [] then files
      else let cacheFile = \<lparr>cf_Fingerprint = e_fingerprint e, cf_Entries = tuned\<rparr>;
               data = json_of_cacheFile cacheFile; dir = path_Dir cachePath;
               tmpPath = cachePath @ ''.tmp''
           in if \<not> e_marshal e t then files
              else if dir \<noteq> [] \<and> dir \<noteq> ''.'' \<and> \<not> e_mkdir e t then files
              else if \<not> e_write e t then files(tmpPath \<mapsto> Unparsable)
              else let files = files(tmpPath \<mapsto> CacheJSON data)
                   in if \<not> e_rename e t then files
                      else (files(tmpPath := None))(cachePath \<mapsto> CacheJSON data))"

section \<open>Construction\<close>

definition registry_of :: "Model list \<Rightarrow> string \<rightharpoonup> Model" where
  "registry_of models = foldl (\<lambda>r m. r(m_ID m \<mapsto> m)) Map.empty models"

definition initial_supervisor :: "Model list \<Rightarrow> string list \<Rightarrow> Supervisor" where
  "initial_supervisor models dirs =
     \<lparr>s_models = registry_of models, s_modelsList = models, s_instances = [], s_tuned = Map.empty,
      s_tuningActiveModel = [], s_tuningStartedAt = 0, s_tuningCurrentCtx = 0,
      s_tuningCurrentOffload = 0, s_tuningProbeCount = 0,
      s_cachePath = (case dirs of
                       d # _ \<Rightarrow> if d \<noteq> [] then path_Join [d, ''tuning.json''] else ''tuning.json''
                     | [] \<Rightarrow> ''tuning.json''),
      s_tuningBudget = 120000000000, s_defaultTTL = 300000000000, s_modelTTLs = Map.empty,
      s_maxInstances = 0, s_slotsPerInstance = 1, s_configPath = [], s_config = Map.empty,
      s_configTTL = Map.empty, s_dirs = dirs, s_rescanInterval = 30000000000, s_closed = False\<rparr>"

text \<open>
  \<open>NewWithOpts\<close>: \<open>scan\<close> is \<open>discoverModels\<close> on the file system of the moment, \<open>read_config\<close> what
  reading and decoding the configuration file at a path yields. The result is the Supervisor and
  the files, or the error of the configuration.
\<close>

definition NewWithOpts ::
  "machine \<Rightarrow> (string list \<Rightarrow> Model list) \<Rightarrow> (string \<Rightarrow> duration option) \<Rightarrow> (string \<Rightarrow> config_input) \<Rightarrow>
     files \<Rightarrow> string list \<Rightarrow> Option list \<Rightarrow> (config_err, Supervisor \<times> files) res"
where
  "NewWithOpts e scan pd read_config files dirs opts =
     (let s = foldl apply_option (initial_supervisor (scan dirs) dirs) opts;
          (tuned, files) = loadTuningCache e (s_cachePath s) files (s_tuned s);
          s = s\<lparr>s_tuned := tuned\<rparr>
      in if s_configPath s \<noteq> [] then
           res_bind (loadConfig pd (read_config (s_configPath s))) (\<lambda>(config, configTTL).
             Inr (s\<lparr>s_config := config, s_configTTL := configTTL\<rparr>, files))
         else Inr (s, files))"

definition SlotsPerInstance :: "Supervisor \<Rightarrow> int" where
  "SlotsPerInstance s = s_slotsPerInstance s"

definition InstanceOccupancy :: "world \<Rightarrow> string \<Rightarrow> (int \<times> int) option" where
  "InstanceOccupancy w modelID =
     (case map_of (s_instances (w_sup w)) modelID of
        None \<Rightarrow> None
      | Some a \<Rightarrow> map_option Occupancy (w_residents w a))"

section \<open>Lemmas\<close>

lemma registry_of_map_of:
  assumes "distinct (map m_ID models)"
  shows "registry_of models = map_of (map (\<lambda>m. (m_ID m, m)) models)"
proof -
  have "foldl (\<lambda>r m. r(m_ID m \<mapsto> m)) r models = r ++ map_of (map (\<lambda>m. (m_ID m, m)) models)"
    if "distinct (map m_ID models)" for r models
    using that
  proof (induction models arbitrary: r)
    case (Cons m models)
    then have "m_ID m \<notin> dom (map_of (map (\<lambda>m. (m_ID m, m)) models))"
      by (auto simp: dom_map_of_conv_image_fst)
    with Cons show ?case by (simp add: map_add_upd_left del: fun_upd_apply)
  qed simp
  from this [OF assms, of Map.empty] show ?thesis by (simp add: registry_of_def)
qed

context model_source
begin

text \<open>The registry built from a scan holds exactly the Models of the scan, each under its ID.\<close>

lemma registry_lookup: "registry_of (scan d) i = Some m \<longleftrightarrow> m \<in> set (scan d) \<and> m_ID m = i"
  unfolding registry_of_map_of [OF scan_distinct] by (rule lookup_id)

end

lemma apply_option_keeps:
  "s_models (apply_option s x) = s_models s"
  "s_modelsList (apply_option s x) = s_modelsList s"
  "s_instances (apply_option s x) = s_instances s"
  "s_tuned (apply_option s x) = s_tuned s"
  "s_config (apply_option s x) = s_config s"
  "s_dirs (apply_option s x) = s_dirs s"
  "s_closed (apply_option s x) = s_closed s"
  "0 < s_slotsPerInstance s \<Longrightarrow> 0 < s_slotsPerInstance (apply_option s x)"
  by (cases x; simp)+

lemma apply_options_keep:
  "s_models (foldl apply_option s xs) = s_models s \<and>
   s_modelsList (foldl apply_option s xs) = s_modelsList s \<and>
   s_instances (foldl apply_option s xs) = s_instances s \<and>
   s_tuned (foldl apply_option s xs) = s_tuned s \<and>
   s_config (foldl apply_option s xs) = s_config s \<and>
   s_dirs (foldl apply_option s xs) = s_dirs s \<and>
   s_closed (foldl apply_option s xs) = s_closed s \<and>
   (0 < s_slotsPerInstance s \<longrightarrow> 0 < s_slotsPerInstance (foldl apply_option s xs))"
  by (induction xs arbitrary: s) (simp_all add: apply_option_keeps)

text \<open>What an entry is decoded to after encoding: itself, if its strings are valid UTF-8.\<close>

definition entry_ok :: "TuningEntry \<Rightarrow> bool" where
  "entry_ok te \<longleftrightarrow>
     valid_utf8 (te_ModelID te) \<and> valid_utf8 (te_ModelDigest te) \<and> valid_utf8 (te_Fingerprint te) \<and>
     valid_utf8 (te_KVCacheType te) \<and> VRAM (te_Allocation te) \<in> {min_int64..max_int64} \<and>
     RAM (te_Allocation te) \<in> {min_int64..max_int64}"

lemma uint_u64 [simp]: "uint (w :: u64) < 18446744073709551616"
  using uint_bounded [of w] by simp

lemmas dec_defs = dec_field_def EqualFold_def ToLower_def lower_char_def

lemma dec_entry_enc: "entry_ok te \<Longrightarrow> dec_entry (json_of_entry te) = Some te"
  by (simp add: entry_ok_def dec_entry_def json_of_entry_def enc_valid dec_allocation_def dec_defs)

lemma dec_entries_enc:
  assumes "\<And>i. i \<in> set ks \<Longrightarrow> valid_utf8 i \<and> entry_ok (f i)"
  shows "dec_entries (JObj (map (\<lambda>i. (utf8_from 0 i, json_of_entry (f i))) ks)) Map.empty =
    Some (\<lambda>i. if i \<in> set ks then Some (f i) else None)"
  using assms
proof (induction ks rule: rev_induct)
  case (snoc k ks)
  then show ?case by (auto simp: dec_entries_def dec_entry_enc valid_utf8_def)
qed (simp add: dec_entries_def)

lemma dec_cacheFile_enc:
  assumes "finite (dom (cf_Entries cf))" "valid_utf8 (cf_Fingerprint cf)"
    "\<And>i entry. cf_Entries cf i = Some entry \<Longrightarrow> valid_utf8 i \<and> entry_ok entry"
  shows "dec_cacheFile (json_of_cacheFile cf) = Some cf"
proof -
  have "dec_entries (JObj (map (\<lambda>i. (utf8_from 0 i, json_of_entry (the (cf_Entries cf i))))
      (sorted_list_of_set (dom (cf_Entries cf))))) Map.empty =
    Some (\<lambda>i. if i \<in> set (sorted_list_of_set (dom (cf_Entries cf))) then Some (the (cf_Entries cf i)) else None)"
    using assms by (intro dec_entries_enc) auto
  also have "\<dots> = Some (cf_Entries cf)"
  proof (rule arg_cong [of _ _ Some], rule ext)
    show "(if i \<in> set (sorted_list_of_set (dom (cf_Entries cf))) then Some (the (cf_Entries cf i)) else None) =
      cf_Entries cf i" for i
      using assms(1) by (cases "cf_Entries cf i") auto
  qed
  finally show ?thesis
    using assms(2) by (simp add: dec_cacheFile_def json_of_cacheFile_def enc_valid dec_defs)
qed

section \<open>Properties\<close>

text \<open>
  C31. The Tuning cache survives a restart on the same hardware and nothing else: what a save
  without failures encoded and wrote is read and decoded entry for entry (those measured under
  the same fingerprint), while under a different fingerprint nothing is loaded and the file is
  removed, unless removing fails. Encoding and decoding go by the tags of the structures; strings
  must be valid UTF-8, which \<open>json.Marshal\<close> would otherwise change.
\<close>

theorem cache_roundtrip:
  assumes "cachePath \<noteq> []" "e_marshal e t" "e_mkdir e t" "e_write e t" "e_rename e t" "e_read e'"
    and "finite (dom tuned)" "valid_utf8 (e_fingerprint e)"
    and "\<And>i entry. tuned i = Some entry \<Longrightarrow> valid_utf8 i \<and> entry_ok entry"
  shows "let files' = saveTuningCacheLocked e t cachePath tuned files in
    (e_fingerprint e' = e_fingerprint e \<longrightarrow>
       loadTuningCache e' cachePath files' Map.empty =
         (\<lambda>i. case tuned i of
                Some entry \<Rightarrow> if te_Fingerprint entry = e_fingerprint e then Some entry else None
              | None \<Rightarrow> None, files')) \<and>
    (e_fingerprint e' \<noteq> e_fingerprint e \<longrightarrow>
       loadTuningCache e' cachePath files' Map.empty =
         (Map.empty, if e_remove e' then files'(cachePath := None) else files'))"
proof -
  let ?cf = "\<lparr>cf_Fingerprint = e_fingerprint e, cf_Entries = tuned\<rparr>"
  have "dec_cacheFile (json_of_cacheFile ?cf) = Some ?cf" using assms(7-9) by (intro dec_cacheFile_enc) simp_all
  moreover have "saveTuningCacheLocked e t cachePath tuned files cachePath = Some (CacheJSON (json_of_cacheFile ?cf))"
    using assms(1-5) by (simp add: saveTuningCacheLocked_def Let_def)
  ultimately show ?thesis
    using assms(1,6) by (auto simp: loadTuningCache_def drop_file_def Let_def cong: option.case_cong)
qed

definition sample_machine :: machine where
  "sample_machine =
     \<lparr>e_fingerprint = ''gpu0'', e_launch = (\<lambda>_ _. Ready), e_stop = (\<lambda>_. None),
      e_alloc = (\<lambda>_. \<lparr>VRAM = 0, RAM = 0\<rparr>), e_load = (\<lambda>_. None), e_budget = (\<lambda>_. None),
      e_time = int, e_marshal = (\<lambda>_. True), e_mkdir = (\<lambda>_. True), e_write = (\<lambda>_. True),
      e_rename = (\<lambda>_. True), e_read = True, e_remove = True\<rparr>"

text \<open>Two entries, one of them of other hardware.\<close>

definition sample_entry :: TuningEntry where
  "sample_entry = \<lparr>te_ModelID = ''big:q4_0'', te_ModelDigest = ''abc'', te_Fingerprint = ''gpu0'', te_RequestedCtx = 8192,
     te_KVCacheType = ''f16'', te_Offload = 30, te_ResultingCtx = 4096, te_Allocation = \<lparr>VRAM = 7000, RAM = 900\<rparr>,
     te_MeasuredAt = 5\<rparr>"

definition sample_tuned :: "string \<rightharpoonup> TuningEntry" where
  "sample_tuned = [''big:q4_0'' \<mapsto> sample_entry,
     ''old'' \<mapsto> sample_entry\<lparr>te_ModelID := ''old'', te_Fingerprint := ''gpu1''\<rparr>]"

lemma sample_tuned_ok:
  "finite (dom sample_tuned)" "valid_utf8 ''gpu0''"
  "sample_tuned i = Some entry \<Longrightarrow> valid_utf8 i \<and> entry_ok entry"
  by (auto simp: sample_tuned_def sample_entry_def entry_ok_def min_int64_def max_int64_def
      intro!: valid_utf8_ascii split: if_splits)

theorem cache_roundtrip_witness:
  "fst (loadTuningCache sample_machine ''tuning.json''
     (saveTuningCacheLocked sample_machine 0 ''tuning.json'' sample_tuned Map.empty) Map.empty) =
   [''big:q4_0'' \<mapsto> sample_entry]"
  using cache_roundtrip [of "''tuning.json''" sample_machine 0 sample_machine sample_tuned Map.empty] sample_tuned_ok
  by (auto simp: sample_machine_def sample_tuned_def sample_entry_def Let_def fun_eq_iff)

text \<open>
  Saving never damages the cache: whichever step fails, the file at the cache path is
  afterwards either what it was or the complete new cache, and no file is touched but it and its
  temporary neighbour.
\<close>

theorem save_is_atomic:
  "(saveTuningCacheLocked e t cachePath tuned files cachePath = files cachePath \<or>
    saveTuningCacheLocked e t cachePath tuned files cachePath =
      Some (CacheJSON (json_of_cacheFile \<lparr>cf_Fingerprint = e_fingerprint e, cf_Entries = tuned\<rparr>))) \<and>
   (\<forall>path. path \<noteq> cachePath \<and> path \<noteq> cachePath @ ''.tmp'' \<longrightarrow>
      saveTuningCacheLocked e t cachePath tuned files path = files path)"
  by (simp add: saveTuningCacheLocked_def Let_def)

theorem save_is_atomic_witness:
  "saveTuningCacheLocked (sample_machine\<lparr>e_write := \<lambda>_. False\<rparr>) 0 ''t.json'' Map.empty Map.empty ''x'' = None"
  using save_is_atomic [of "sample_machine\<lparr>e_write := \<lambda>_. False\<rparr>" 0 "''t.json''" Map.empty Map.empty] by simp

text \<open>
  A Supervisor that starts is well formed: its registry holds exactly the discovered Models,
  each under its ID and listed in strict order of IDs; no Instance is resident, every cached
  Tuning entry is of the present hardware, the Slot count is positive and so is the resolved Slot
  count of every Model, and no Pin is incomplete.
\<close>

theorem NewWithOpts_wf:
  assumes "NewWithOpts e (discoverModels ovf fs) pd read_config files dirs opts = Inr (s, files')"
  shows "(\<forall>i m. s_models s i = Some m \<longleftrightarrow> m \<in> set (s_modelsList s) \<and> m_ID m = i) \<and>
    sorted_wrt (<) (map m_ID (s_modelsList s)) \<and> s_modelsList s = discoverModels ovf fs dirs \<and>
    s_instances s = [] \<and> \<not> s_closed s \<and>
    (\<forall>i entry. s_tuned s i = Some entry \<longrightarrow> te_Fingerprint entry = e_fingerprint e) \<and>
    0 < SlotsPerInstance s \<and> 0 < resolveSlots (s_config s) (s_slotsPerInstance s) m' \<and>
    resolvePin (s_config s) m' \<noteq> PinNil"
proof -
  define s0 where "s0 = foldl apply_option (initial_supervisor (discoverModels ovf fs dirs) dirs) opts"
  obtain tuned f1 where load: "loadTuningCache e (s_cachePath s0) files (s_tuned s0) = (tuned, f1)"
    by fastforce
  have s0: "s_models s0 = registry_of (discoverModels ovf fs dirs)" "s_modelsList s0 = discoverModels ovf fs dirs"
    "s_instances s0 = []" "s_tuned s0 = Map.empty" "s_config s0 = Map.empty" "\<not> s_closed s0"
    "0 < s_slotsPerInstance s0"
    using apply_options_keep [of "initial_supervisor (discoverModels ovf fs dirs) dirs" opts]
    unfolding s0_def by (simp_all add: initial_supervisor_def)
  have tuned: "te_Fingerprint entry = e_fingerprint e" if "tuned i = Some entry" for i entry
    using load that unfolding s0(4) loadTuningCache_def Let_def
    by (auto split: if_splits option.splits cache_text.splits)
  from assms consider
      (no_config) "s = s0\<lparr>s_tuned := tuned\<rparr>"
    | (config) inp config configTTL where "loadConfig pd inp = Inr (config, configTTL)"
        "s = s0\<lparr>s_tuned := tuned, s_config := config, s_configTTL := configTTL\<rparr>"
    unfolding NewWithOpts_def Let_def s0_def [symmetric] load
    by (auto simp: res_bind_Inr_iff split: if_splits)
  then show ?thesis
  proof cases
    case no_config
    then show ?thesis
      using s0 tuned disc.registry_lookup disc.strictly_sorted
      by (simp add: SlotsPerInstance_def resolveSlots_def resolvePin_def resolveModelConfig_def
          lookupByModelKeys_def)
  next
    case config
    have "0 < resolveSlots config (s_slotsPerInstance s0) m'" "resolvePin config m' \<noteq> PinNil"
      using loaded_slots [OF config(1) s0(7)] loaded_pin [OF config(1)] by auto
    with config(2) show ?thesis
      using s0 tuned disc.registry_lookup disc.strictly_sorted by (simp add: SlotsPerInstance_def)
  qed
qed

lemma sample_start:
  "\<exists>s f. NewWithOpts sample_machine (discoverModels 0 sample_fs) sample_pd (\<lambda>_. Parsed sample_entries)
     Map.empty [''d''] [WithConfigFile ''c.json'', WithSlotsPerInstance (-3)] = Inr (s, f)"
  using sample_loaded by (auto simp: NewWithOpts_def loadTuningCache_def Let_def split: prod.splits)

theorem NewWithOpts_wf_witness:
  "\<exists>s f. NewWithOpts sample_machine (discoverModels 0 sample_fs) sample_pd (\<lambda>_. Parsed sample_entries)
     Map.empty [''d''] [WithConfigFile ''c.json'', WithSlotsPerInstance (-3)] = Inr (s, f) \<and>
     0 < SlotsPerInstance s"
  using sample_start NewWithOpts_wf by blast

end
