(* ===== verification/Tuning.thy ===== *)
theory Tuning
  imports State
begin

text \<open>
  Launching and Tuning, \<open>launchConfig\<close>, \<open>tune\<close> and \<open>launchInstance\<close> of
  \<open>src/internal/supervisor/supervisor.go\<close>: the ladder of context lengths, the binary search over
  GPU offload, the fallback when the budget runs out, and what is kept in the Tuning cache. The
  machine answers through a \<^typ>\<open>machine\<close>. The search loop is a \<open>partial_function\<close>, since its
  bounds are 64-bit integers: \<^const>\<open>None\<close> would be a loop that never ends.
\<close>

section \<open>Processes\<close>

text \<open>\<open>stopInstance\<close>; a process whose \<open>Stop\<close> fails is still there.\<close>

definition stopInstance :: "machine \<Rightarrow> nat option \<Rightarrow> world \<Rightarrow> go_error option \<times> world" where
  "stopInstance e inst w =
     (case inst of
        None \<Rightarrow> (None, w)
      | Some n \<Rightarrow>
          (case e_stop e n of
             None \<Rightarrow> (None, w\<lparr>w_running := remove1 n (w_running w)\<rparr>)
           | Some err \<Rightarrow> (Some err, w)))"

text \<open>Cancelling a context ends it for every process launched with it.\<close>

definition end_ctx :: "launch_ctx \<Rightarrow> world \<Rightarrow> world" where
  "end_ctx c w = w\<lparr>w_contexts := map (\<lambda>d. if d = c then EndedCtx else d) (w_contexts w)\<rparr>"

definition launchConfig ::
  "launch_ctx \<Rightarrow> machine \<Rightarrow> Model \<Rightarrow> tunableFlags \<Rightarrow> world \<Rightarrow> (go_error, nat) res \<times> world"
where
  "launchConfig ctx e m cfg w =
     (let argv = launch_argv (s_config (w_sup w)) (s_slotsPerInstance (w_sup w)) m cfg;
          n = length (w_launches w);
          w = w\<lparr>w_launches := w_launches w @ [argv], w_contexts := w_contexts w @ [ctx]\<rparr>
      in case e_launch e n argv of
           LaunchFails err \<Rightarrow> (Inl (ErrWrap ''failed to launch instance'' err), w)
         | NotReady err \<Rightarrow>
             (Inl (ErrWrap ''instance failed readiness'' err),
              snd (stopInstance e (Some n) (w\<lparr>w_running := n # w_running w\<rparr>)))
         | Ready \<Rightarrow> (Inr n, w\<lparr>w_running := n # w_running w\<rparr>))"

text \<open>\<open>evictAllResidentInstances\<close>: every resident Instance is marked and dropped, then stopped.\<close>

fun mark_all :: "(string \<times> nat) list \<Rightarrow> (nat \<rightharpoonup> residentInstance) \<Rightarrow> (nat \<rightharpoonup> residentInstance)" where
  "mark_all [] h = h"
| "mark_all ((_, a) # is) h =
     mark_all is (case h a of Some ri \<Rightarrow> h(a \<mapsto> stopTimerAndMarkStopped ri) | None \<Rightarrow> h)"

fun stop_all :: "machine \<Rightarrow> nat list \<Rightarrow> world \<Rightarrow> world" where
  "stop_all e [] w = w"
| "stop_all e (n # ns) w = stop_all e ns (snd (stopInstance e (Some n) w))"

definition processes_of :: "(string \<times> nat) list \<Rightarrow> (nat \<rightharpoonup> residentInstance) \<Rightarrow> nat list" where
  "processes_of is h = List.map_filter (\<lambda>(_, a). map_option ri_inst (h a)) is"

definition evictAllResidentInstances :: "machine \<Rightarrow> world \<Rightarrow> world" where
  "evictAllResidentInstances e w =
     (let is = s_instances (w_sup w); toStop = processes_of is (w_residents w)
      in stop_all e toStop
           (w\<lparr>w_residents := mark_all is (w_residents w), w_sup := (w_sup w)\<lparr>s_instances := []\<rparr>\<rparr>))"

section \<open>Tuning\<close>

definition requested_ctx :: "Model \<Rightarrow> u64" where
  "requested_ctx m = (if m_ContextLength m = 0 then 2048 else m_ContextLength m)"

definition ladder :: "u64 \<Rightarrow> u64 list" where
  "ladder ctxLen =
     foldl (\<lambda>l step. if step \<le> ctxLen \<and> (l = [] \<or> last l \<noteq> step) then l @ [step] else l) []
       [ctxLen, 32768, 16384, 8192, 4096, 2048, 1024, 512]"

definition max_offload :: "Model \<Rightarrow> u64" where
  "max_offload m = (if m_BlockCount m = 0 then 100 else m_BlockCount m)"

text \<open>The progress fields: set for a probe, reset at the beginning and at the end.\<close>

definition set_progress :: "tunableFlags \<Rightarrow> world \<Rightarrow> world" where
  "set_progress cfg w =
     w\<lparr>w_sup := (w_sup w)\<lparr>s_tuningCurrentCtx := CtxLen cfg, s_tuningCurrentOffload := Offload cfg,
        s_tuningProbeCount := s_tuningProbeCount (w_sup w) + 1\<rparr>\<rparr>"

definition start_progress :: "string \<Rightarrow> time \<Rightarrow> world \<Rightarrow> world" where
  "start_progress modelID now w =
     w\<lparr>w_sup := (w_sup w)\<lparr>s_tuningActiveModel := modelID, s_tuningStartedAt := now, s_tuningCurrentCtx := 0,
        s_tuningCurrentOffload := 0, s_tuningProbeCount := 0\<rparr>\<rparr>"

text \<open>A result becomes an entry of the cache, in memory and on disk.\<close>

definition entry_of :: "machine \<Rightarrow> Model \<Rightarrow> u64 \<Rightarrow> tunableFlags \<Rightarrow> nat \<Rightarrow> nat \<Rightarrow> TuningEntry" where
  "entry_of e m ctxLen cfg n t =
     \<lparr>te_ModelID = m_ID m, te_ModelDigest = m_Digest m, te_Fingerprint = e_fingerprint e,
      te_RequestedCtx = ctxLen, te_KVCacheType = ''f16'', te_Offload = Offload cfg,
      te_ResultingCtx = CtxLen cfg, te_Allocation = e_alloc e n, te_MeasuredAt = e_time e t\<rparr>"

definition record_entry :: "machine \<Rightarrow> Model \<Rightarrow> u64 \<Rightarrow> tunableFlags \<Rightarrow> nat \<Rightarrow> world \<Rightarrow> world" where
  "record_entry e m ctxLen cfg n w =
     (let entry = entry_of e m ctxLen cfg n (w_tick w);
          s = (w_sup w)\<lparr>s_tuned := (s_tuned (w_sup w))(m_ID m \<mapsto> entry)\<rparr>
      in w\<lparr>w_sup := s,
           w_files := saveTuningCacheLocked e (w_tick w) (s_cachePath s) (s_tuned s) (w_files w),
           w_tick := w_tick w + 1\<rparr>)"

definition launch_and_record ::
  "launch_ctx \<Rightarrow> machine \<Rightarrow> Model \<Rightarrow> u64 \<Rightarrow> tunableFlags \<Rightarrow> string \<Rightarrow> world \<Rightarrow> (go_error, nat) res \<times> world"
where
  "launch_and_record ctx e m ctxLen cfg what w =
     (case launchConfig ctx e m cfg w of
        (Inl err, w) \<Rightarrow> (Inl (ErrWrap what err), w)
      | (Inr n, w) \<Rightarrow> (Inr n, record_entry e m ctxLen cfg n w))"

definition fallback_cfg :: "u64 \<Rightarrow> tunableFlags" where
  "fallback_cfg ctxLen = \<lparr>CtxLen = (if ctxLen < 2048 then ctxLen else 2048), Offload = 0\<rparr>"

text \<open>
  The fallback is launched with the context of the load or, if that is done by now, with one of its
  own, which it cancels when it returns.
\<close>

definition fallback :: "machine \<Rightarrow> Model \<Rightarrow> u64 \<Rightarrow> world \<Rightarrow> (go_error, nat) res \<times> world" where
  "fallback e m ctxLen w =
     (let t = w_tick w;
          ctx = (if e_load e t = None then LoadCtx else FallbackCtx);
          (r, w) = launch_and_record ctx e m ctxLen (fallback_cfg ctxLen)
            ''failed to launch conservative fallback configuration after budget exhaustion'' (w\<lparr>w_tick := t + 1\<rparr>)
      in (r, if ctx = FallbackCtx then end_ctx FallbackCtx w else w))"

text \<open>
  The check of the budget that precedes and follows every launch: \<^const>\<open>None\<close> to go on, or what
  \<open>tune\<close> returns, the load's error if the load itself is cancelled and else the fallback.
\<close>

definition budget_check ::
  "machine \<Rightarrow> Model \<Rightarrow> u64 \<Rightarrow> world \<Rightarrow> (go_error, nat) res option \<times> world"
where
  "budget_check e m ctxLen w =
     (let t = w_tick w; w = w\<lparr>w_tick := t + 1\<rparr>
      in case e_budget e t of
           None \<Rightarrow> (None, w)
         | Some _ \<Rightarrow>
             (case e_load e t of
                Some err \<Rightarrow> (Some (Inl err), w)
              | None \<Rightarrow> (let (r, w) = fallback e m ctxLen w in (Some r, w))))"

definition non_memory :: "go_error \<Rightarrow> go_error" where
  "non_memory err = ErrWrap ''tuning aborted due to non-memory error'' err"

text \<open>\<open>tune\<close> returns from within a loop, or the loop ends with the values of its variables.\<close>

datatype 'a loop_end = Return "(go_error, nat) res" | Ended 'a

text \<open>Go's division by two truncates.\<close>

definition half :: "int \<Rightarrow> int" where
  "half i = (if i < 0 then - (- i div 2) else i div 2)"

partial_function (option) search ::
  "machine \<Rightarrow> Model \<Rightarrow> u64 \<Rightarrow> u64 \<Rightarrow> int \<Rightarrow> int \<Rightarrow> tunableFlags option \<Rightarrow> go_error \<Rightarrow> world \<Rightarrow>
     ((tunableFlags option \<times> go_error) loop_end \<times> world) option"
where
  "search e m ctxLen currentCtx low high best lastErr w =
     (if low \<le> high then
        (case budget_check e m ctxLen w of
           (Some r, w) \<Rightarrow> Some (Return r, w)
         | (None, w) \<Rightarrow>
             (let mid = wrap64 (low + half (wrap64 (high - low)));
                  cfg = \<lparr>CtxLen = currentCtx, Offload = word_of_int mid\<rparr>
              in case launchConfig BudgetCtx e m cfg (set_progress cfg w) of
                   (Inr n, w) \<Rightarrow>
                     search e m ctxLen currentCtx (wrap64 (mid + 1)) high (Some cfg) lastErr
                       (snd (stopInstance e (Some n) w))
                 | (Inl err, w) \<Rightarrow>
                     (case budget_check e m ctxLen w of
                        (Some r, w) \<Rightarrow> Some (Return r, w)
                      | (None, w) \<Rightarrow>
                          (if IsOOM (Some err)
                           then search e m ctxLen currentCtx low (wrap64 (mid - 1)) best err w
                           else Some (Return (Inl (non_memory err)), w)))))
      else Some (Ended (best, lastErr), w))"

text \<open>The launch of the best configuration found, with its budget check on failure.\<close>

definition launch_best ::
  "machine \<Rightarrow> Model \<Rightarrow> u64 \<Rightarrow> tunableFlags \<Rightarrow> world \<Rightarrow> (go_error, nat) res \<times> world"
where
  "launch_best e m ctxLen bestCfg w =
     (case launchConfig BudgetCtx e m bestCfg (set_progress bestCfg w) of
        (Inr n, w) \<Rightarrow> (Inr n, record_entry e m ctxLen bestCfg n w)
      | (Inl err, w) \<Rightarrow>
          (case budget_check e m ctxLen w of
             (Some r, w) \<Rightarrow> (r, w)
           | (None, w) \<Rightarrow> (Inl (ErrWrap ''failed to launch best tuned configuration'' err), w)))"

text \<open>One turn of the loop over the ladder.\<close>

definition tune_ctx ::
  "machine \<Rightarrow> Model \<Rightarrow> u64 \<Rightarrow> u64 \<Rightarrow> world \<Rightarrow> (go_error loop_end \<times> world) option"
where
  "tune_ctx e m ctxLen currentCtx w =
     (case budget_check e m ctxLen w of
        (Some r, w) \<Rightarrow> Some (Return r, w)
      | (None, w) \<Rightarrow>
          (let cfg = \<lparr>CtxLen = currentCtx, Offload = max_offload m\<rparr>
           in case launchConfig BudgetCtx e m cfg (set_progress cfg w) of
                (Inr n, w) \<Rightarrow> Some (Return (Inr n), record_entry e m ctxLen cfg n w)
              | (Inl err, w) \<Rightarrow>
                  (case budget_check e m ctxLen w of
                     (Some r, w) \<Rightarrow> Some (Return r, w)
                   | (None, w) \<Rightarrow>
                       (if \<not> IsOOM (Some err) then Some (Return (Inl (non_memory err)), w)
                        else (case search e m ctxLen currentCtx 0 (wrap64 (sint (max_offload m) - 1)) None err w of
                                None \<Rightarrow> None
                              | Some (Return r, w) \<Rightarrow> Some (Return r, w)
                              | Some (Ended (Some bestCfg, _), w) \<Rightarrow>
                                  (let (r, w) = launch_best e m ctxLen bestCfg w in Some (Return r, w))
                              | Some (Ended (None, lastErr), w) \<Rightarrow> Some (Ended lastErr, w))))))"

definition unservable :: "go_error option \<Rightarrow> go_error" where
  "unservable lastErr =
     ErrNew (''model is unservable: exceeds available memory even at minimum configuration (last error: '' @
       (case lastErr of Some err \<Rightarrow> Error err | None \<Rightarrow> ''<nil>'') @ '')'')"

fun tune_ladder ::
  "machine \<Rightarrow> Model \<Rightarrow> u64 \<Rightarrow> u64 list \<Rightarrow> go_error option \<Rightarrow> world \<Rightarrow> ((go_error, nat) res \<times> world) option"
where
  "tune_ladder e m ctxLen [] lastErr w = Some (Inl (unservable lastErr), w)"
| "tune_ladder e m ctxLen (c # cs) lastErr w =
     (case tune_ctx e m ctxLen c w of
        None \<Rightarrow> None
      | Some (Return r, w) \<Rightarrow> Some (r, w)
      | Some (Ended err, w) \<Rightarrow> tune_ladder e m ctxLen cs (Some err) w)"

definition tune :: "machine \<Rightarrow> Model \<Rightarrow> world \<Rightarrow> ((go_error, nat) res \<times> world) option" where
  "tune e m w =
     (let now = e_time e (w_tick w);
          w = start_progress (m_ID m) now (w\<lparr>w_tick := w_tick w + 1\<rparr>);
          w = evictAllResidentInstances e w;
          ctxLen = requested_ctx m
      in map_option (\<lambda>(r, w). (r, start_progress [] 0 (end_ctx BudgetCtx w)))
           (tune_ladder e m ctxLen (ladder ctxLen) None w))"

section \<open>Launching an Instance of a Model\<close>

text \<open>Dereferencing a nil pointer panics.\<close>

datatype 'a outcome = Panics | Returns 'a

definition cache_hit :: "machine \<Rightarrow> Model \<Rightarrow> TuningEntry \<Rightarrow> bool" where
  "cache_hit e m entry \<longleftrightarrow>
     te_Fingerprint entry = e_fingerprint e \<and> te_ModelDigest entry = m_Digest m \<and>
     te_RequestedCtx entry = requested_ctx m \<and> te_KVCacheType entry = ''f16''"

definition drop_entry :: "machine \<Rightarrow> string \<Rightarrow> world \<Rightarrow> world" where
  "drop_entry e modelID w =
     (let s = (w_sup w)\<lparr>s_tuned := (s_tuned (w_sup w))(modelID := None)\<rparr>
      in w\<lparr>w_sup := s,
           w_files := saveTuningCacheLocked e (w_tick w) (s_cachePath s) (s_tuned s) (w_files w),
           w_tick := w_tick w + 1\<rparr>)"

definition launchInstance ::
  "machine \<Rightarrow> Model \<Rightarrow> world \<Rightarrow> ((go_error, nat) res outcome \<times> world) option"
where
  "launchInstance e m w =
     (case resolvePin (s_config (w_sup w)) m of
        PinNil \<Rightarrow> Some (Panics, w)
      | Pinned cfg \<Rightarrow> (let (r, w) = launchConfig LoadCtx e m cfg w in Some (Returns r, w))
      | NoPin \<Rightarrow>
          (case s_tuned (w_sup w) (m_ID m) of
             Some entry \<Rightarrow>
               (if cache_hit e m entry then
                  (let (r, w) = launchConfig LoadCtx e m \<lparr>CtxLen = te_ResultingCtx entry, Offload = te_Offload entry\<rparr> w
                   in Some (Returns r, w))
                else map_option (\<lambda>(r, w). (Returns r, w)) (tune e m (drop_entry e (m_ID m) w)))
           | None \<Rightarrow> map_option (\<lambda>(r, w). (Returns r, w)) (tune e m w)))"

section \<open>Vocabulary of the properties\<close>

text \<open>
  Processes stop when told to. A \<open>quiet\<close> stretch of Tuning leaves nothing behind but progress
  fields and at most \<open>k\<close> more launches; it ends well with the launch of a candidate
  configuration that is recorded.
\<close>

definition stops_ok :: "machine \<Rightarrow> bool" where
  "stops_ok e \<longleftrightarrow> (\<forall>n. e_stop e n = None)"

definition same_sup :: "Supervisor \<Rightarrow> Supervisor \<Rightarrow> bool" where
  "same_sup s s' \<longleftrightarrow>
     (\<exists>c l n. s' = s\<lparr>s_tuningCurrentCtx := c, s_tuningCurrentOffload := l, s_tuningProbeCount := n\<rparr>)"

definition quiet :: "machine \<Rightarrow> nat \<Rightarrow> world \<Rightarrow> world \<Rightarrow> bool" where
  "quiet e k w w' \<longleftrightarrow>
     same_sup (w_sup w) (w_sup w') \<and> w_residents w' = w_residents w \<and> w_files w' = w_files w \<and>
     (stops_ok e \<longrightarrow> w_running w' = w_running w) \<and>
     (\<exists>xs. w_launches w' = w_launches w @ xs \<and> length xs \<le> k \<and>
        length (w_contexts w') = length (w_contexts w) + length xs)"

definition candidate :: "Model \<Rightarrow> tunableFlags \<Rightarrow> bool" where
  "candidate m cfg \<longleftrightarrow>
     cfg = fallback_cfg (requested_ctx m) \<or>
     CtxLen cfg \<in> set (ladder (requested_ctx m)) \<and> Offload cfg \<le> max_offload m"

text \<open>Only the fallback, after the budget has run out, is launched with another context.\<close>

definition source :: "machine \<Rightarrow> Model \<Rightarrow> tunableFlags \<Rightarrow> launch_ctx \<Rightarrow> bool" where
  "source e m cfg ctx \<longleftrightarrow>
     ctx = BudgetCtx \<or>
     ctx \<in> {LoadCtx, FallbackCtx} \<and> cfg = fallback_cfg (requested_ctx m) \<and> (\<exists>t. e_budget e t \<noteq> None)"

definition close_fallback :: "launch_ctx \<Rightarrow> world \<Rightarrow> world" where
  "close_fallback ctx w = (if ctx = FallbackCtx then end_ctx FallbackCtx w else w)"

definition ends_well :: "machine \<Rightarrow> Model \<Rightarrow> nat \<Rightarrow> world \<Rightarrow> (go_error, nat) res \<Rightarrow> world \<Rightarrow> bool" where
  "ends_well e m k w r w' \<longleftrightarrow>
     (case r of
        Inl _ \<Rightarrow> quiet e k w w'
      | Inr n \<Rightarrow> (\<exists>w1 w2 cfg ctx. quiet e k w w1 \<and> candidate m cfg \<and> source e m cfg ctx \<and>
                   launchConfig ctx e m cfg w1 = (Inr n, w2) \<and>
                   w' = close_fallback ctx (record_entry e m (requested_ctx m) cfg n w2)))"

text \<open>What the deferred calls of \<open>tune\<close> do.\<close>

abbreviation tune_end :: "world \<Rightarrow> world" where
  "tune_end w \<equiv> start_progress [] 0 (end_ctx BudgetCtx w)"

section \<open>Lemmas\<close>

lemma end_ctx_simps [simp]:
  "w_sup (end_ctx c w) = w_sup w" "w_residents (end_ctx c w) = w_residents w" "w_files (end_ctx c w) = w_files w"
  "w_running (end_ctx c w) = w_running w" "w_launches (end_ctx c w) = w_launches w" "w_tick (end_ctx c w) = w_tick w"
  "length (w_contexts (end_ctx c w)) = length (w_contexts w)"
  by (simp_all add: end_ctx_def)

lemma close_fallback_simps [simp]:
  "w_sup (close_fallback c w) = w_sup w" "w_residents (close_fallback c w) = w_residents w"
  "w_files (close_fallback c w) = w_files w" "w_running (close_fallback c w) = w_running w"
  "w_launches (close_fallback c w) = w_launches w" "w_tick (close_fallback c w) = w_tick w"
  "length (w_contexts (close_fallback c w)) = length (w_contexts w)"
  by (simp_all add: close_fallback_def)

subsection \<open>The ladder\<close>

lemma ladder_tail:
  assumes "sorted_wrt (>) xs" "l \<noteq> []" "\<forall>x \<in> set xs. x \<le> c \<longrightarrow> x \<le> last l"
  shows "foldl (\<lambda>l step. if step \<le> c \<and> (l = [] \<or> last l \<noteq> step) then l @ [step] else l) l xs =
           l @ filter (\<lambda>x. x \<le> c \<and> x < last l) (xs :: u64 list)"
  using assms
proof (induction xs arbitrary: l)
  case (Cons x xs)
  show ?case
  proof (cases "x \<le> c \<and> last l \<noteq> x")
    case True
    have "foldl (\<lambda>l step. if step \<le> c \<and> (l = [] \<or> last l \<noteq> step) then l @ [step] else l) (l @ [x]) xs =
        (l @ [x]) @ filter (\<lambda>y. y \<le> c \<and> y < last (l @ [x])) xs"
      using Cons.prems by (intro Cons.IH) auto
    moreover have "filter (\<lambda>y. y \<le> c \<and> y < x) xs = filter (\<lambda>y. y \<le> c \<and> y < last l) xs"
      using Cons.prems True by (intro filter_cong) auto
    ultimately show ?thesis using Cons.prems True by auto
  next
    case False
    then show ?thesis using Cons by auto
  qed
qed simp

lemma ladder_eq:
  "ladder c = c # filter (\<lambda>x. x < c) [32768, 16384, 8192, 4096, 2048, 1024, 512]"
proof -
  have "ladder c = foldl (\<lambda>l step. if step \<le> c \<and> (l = [] \<or> last l \<noteq> step) then l @ [step] else l) [c]
      [32768, 16384, 8192, 4096, 2048, 1024, 512]"
    by (simp add: ladder_def)
  also have "\<dots> = [c] @ filter (\<lambda>x. x \<le> c \<and> x < last [c]) [32768, 16384, 8192, 4096, 2048, 1024, 512]"
    by (rule ladder_tail) simp_all
  also have "\<dots> = c # filter (\<lambda>x. x < c) [32768, 16384, 8192, 4096, 2048, 1024, 512]"
    by (simp only: append.simps last.simps list.case if_True refl)
       (intro arg_cong2 [where f = Cons] filter_cong refl, auto)
  finally show ?thesis .
qed

lemma ladder_sorted: "sorted_wrt (>) (ladder c)"
proof -
  have "sorted_wrt (>) (filter (\<lambda>x. x < c) [32768, 16384, 8192, 4096, 2048, 1024, 512 :: u64])"
    by (rule sorted_wrt_filter) simp
  then show ?thesis unfolding ladder_eq by auto
qed

lemma ladder_length: "length (ladder c) \<le> 8"
proof -
  have "length (filter (\<lambda>x. x < c) [32768, 16384, 8192, 4096, 2048, 1024, 512 :: u64]) \<le> 7"
    using length_filter_le [of "\<lambda>x. x < c" "[32768, 16384, 8192, 4096, 2048, 1024, 512 :: u64]"] by simp
  then show ?thesis unfolding ladder_eq by simp
qed

subsection \<open>Quiet stretches\<close>

lemma same_sup_refl: "same_sup s s"
  unfolding same_sup_def by (metis Supervisor.surjective Supervisor.update_convs(7-9))

lemma same_sup_trans: "same_sup s s' \<Longrightarrow> same_sup s' s'' \<Longrightarrow> same_sup s s''"
  unfolding same_sup_def by fastforce

lemma quiet_trans: "quiet e k w w' \<Longrightarrow> quiet e l w' w'' \<Longrightarrow> quiet e (k + l) w w''"
  unfolding quiet_def using same_sup_trans by fastforce

lemma quiet_mono: "quiet e k w w' \<Longrightarrow> k \<le> l \<Longrightarrow> quiet e l w w'"
  unfolding quiet_def using order_trans by blast

lemma quiet_tick: "quiet e 0 w (w\<lparr>w_tick := t\<rparr>)"
  by (simp add: quiet_def same_sup_refl)

lemma quiet_progress: "quiet e 0 w (set_progress cfg w)"
  by (auto simp: quiet_def set_progress_def same_sup_def)

lemma stopInstance_simps [simp]:
  "w_sup (snd (stopInstance e i w)) = w_sup w"
  "w_residents (snd (stopInstance e i w)) = w_residents w"
  "w_files (snd (stopInstance e i w)) = w_files w"
  "w_launches (snd (stopInstance e i w)) = w_launches w"
  "w_tick (snd (stopInstance e i w)) = w_tick w"
  "w_contexts (snd (stopInstance e i w)) = w_contexts w"
  "stops_ok e \<Longrightarrow> w_running (snd (stopInstance e (Some n) w)) = remove1 n (w_running w)"
  by (auto simp: stopInstance_def stops_ok_def split: option.split)

lemma quiet_launch_fails:
  assumes "launchConfig ctx e m cfg w = (Inl err, w')"
  shows "quiet e 1 w w'"
  using assms
  by (auto simp: launchConfig_def Let_def quiet_def same_sup_refl split: launch_outcome.splits)

lemma quiet_probe:
  assumes "launchConfig ctx e m cfg w = (Inr n, w')"
  shows "quiet e 1 w (snd (stopInstance e (Some n) w'))"
  using assms
  by (auto simp: launchConfig_def Let_def quiet_def same_sup_refl split: launch_outcome.splits)

lemma ends_well_trans:
  assumes "quiet e k w w'" "ends_well e m l w' r w''"
  shows "ends_well e m (k + l) w r w''"
proof (cases r)
  case (Inl err)
  with assms show ?thesis by (simp add: ends_well_def quiet_trans)
next
  case (Inr n)
  show ?thesis
    using assms(2) quiet_trans [OF assms(1)] unfolding ends_well_def Inr sum.case by blast
qed

lemma ends_well_mono: "ends_well e m k w r w' \<Longrightarrow> k \<le> l \<Longrightarrow> ends_well e m l w r w'"
  unfolding ends_well_def using quiet_mono by (cases r) fastforce+

lemma ends_wellI:
  assumes "quiet e k w w1" "candidate m cfg" "source e m cfg ctx" "launchConfig ctx e m cfg w1 = (Inr n, w2)"
  shows "ends_well e m k w (Inr n) (close_fallback ctx (record_entry e m (requested_ctx m) cfg n w2))"
  unfolding ends_well_def sum.case using assms by blast

lemma ends_wellI_budget:
  assumes "quiet e k w w1" "candidate m cfg" "launchConfig BudgetCtx e m cfg w1 = (Inr n, w2)"
  shows "ends_well e m k w (Inr n) (record_entry e m (requested_ctx m) cfg n w2)"
  using ends_wellI [OF assms(1,2) _ assms(3)] by (simp add: source_def close_fallback_def)

lemma fallback_ends_well:
  assumes "fallback e m (requested_ctx m) w = (r, w')" "e_budget e t \<noteq> None"
  shows "ends_well e m 1 w r w'"
proof -
  define ctx where "ctx = (if e_load e (w_tick w) = None then LoadCtx else FallbackCtx)"
  let ?w = "w\<lparr>w_tick := w_tick w + 1\<rparr>"
  let ?cfg = "fallback_cfg (requested_ctx m)"
  note q = quiet_tick [of e w "w_tick w + 1"]
  obtain x w1 where l: "launchConfig ctx e m ?cfg ?w = (x, w1)" by fastforce
  have s: "source e m ?cfg ctx" using assms(2) by (auto simp: source_def ctx_def)
  show ?thesis
  proof (cases x)
    case (Inl err)
    have "r = Inl (ErrWrap ''failed to launch conservative fallback configuration after budget exhaustion'' err)"
      "w' = close_fallback ctx w1"
      using assms(1) l Inl by (simp_all add: fallback_def launch_and_record_def Let_def close_fallback_def flip: ctx_def)
    moreover have "quiet e 1 w w1" using quiet_trans [OF q quiet_launch_fails [OF l [unfolded Inl]]] by simp
    ultimately show ?thesis by (simp add: ends_well_def quiet_def)
  next
    case (Inr n)
    have "r = Inr n" "w' = close_fallback ctx (record_entry e m (requested_ctx m) ?cfg n w1)"
      using assms(1) l Inr by (simp_all add: fallback_def launch_and_record_def Let_def close_fallback_def flip: ctx_def)
    with ends_wellI [OF quiet_mono [OF q] _ s l [unfolded Inr], of 1] show ?thesis by (simp add: candidate_def)
  qed
qed

lemma budget_check_cases:
  assumes "budget_check e m (requested_ctx m) w = (x, w')"
  shows "case x of None \<Rightarrow> quiet e 0 w w' | Some r \<Rightarrow> ends_well e m 1 w r w'"
proof -
  note q = quiet_tick [of e w "w_tick w + 1"]
  have err: "ends_well e m 1 w (Inl err) (w\<lparr>w_tick := w_tick w + 1\<rparr>)" for err
    using quiet_mono [OF q, of 1] by (simp add: ends_well_def)
  obtain r w2 where f: "fallback e m (requested_ctx m) (w\<lparr>w_tick := w_tick w + 1\<rparr>) = (r, w2)"
    by fastforce
  have "ends_well e m 1 w r w2" if "e_budget e (w_tick w) \<noteq> None"
    using ends_well_trans [OF q fallback_ends_well [OF f that]] by simp
  with assms q err f show ?thesis
    by (auto simp: budget_check_def Let_def split: option.splits)
qed

subsection \<open>The search\<close>

text \<open>The middle of the interval, and the sizes of its halves.\<close>

lemma search_mid:
  assumes "0 \<le> low" "low \<le> high" "high < 2 ^ 63 - 1" "high - low + 1 < 2 ^ Suc k"
  defines "mid \<equiv> wrap64 (low + half (wrap64 (high - low)))"
  shows "low \<le> mid" "mid \<le> high" "wrap64 (mid + 1) = mid + 1" "wrap64 (mid - 1) = mid - 1"
    "high - (mid + 1) + 1 < 2 ^ k" "(mid - 1) - low + 1 < 2 ^ k" "uint (word_of_int mid :: u64) = mid"
proof -
  have d: "wrap64 (high - low) = high - low" using assms(1-3) by (intro wrap64_id) auto
  have m: "mid = low + (high - low) div 2"
    unfolding mid_def d using assms(1-3) by (simp add: half_def wrap64_id)
  show "low \<le> mid" "mid \<le> high" unfolding m using assms(1,2) by auto
  then show "wrap64 (mid + 1) = mid + 1" "wrap64 (mid - 1) = mid - 1" "uint (word_of_int mid :: u64) = mid"
    using assms(1,3) by (auto intro!: wrap64_id simp: uint_word_of_int)
  show "high - (mid + 1) + 1 < 2 ^ k" "(mid - 1) - low + 1 < 2 ^ k"
    unfolding m using assms(2,4) by auto
qed

text \<open>One round of the search: it returns, or goes on in the upper or in the lower half.\<close>

lemma search_round:
  fixes c :: u64
  assumes "low \<le> high"
  defines "mid \<equiv> wrap64 (low + half (wrap64 (high - low)))"
  defines "cfg \<equiv> \<lparr>CtxLen = c, Offload = word_of_int mid\<rparr>"
  obtains (returns) r w' where "search e m (requested_ctx m) c low high best lastErr w = Some (Return r, w')"
      "ends_well e m 2 w r w'"
  | (upper) w' where "quiet e 1 w w'" "search e m (requested_ctx m) c low high best lastErr w =
      search e m (requested_ctx m) c (wrap64 (mid + 1)) high (Some cfg) lastErr w'"
  | (lower) err w' where "quiet e 1 w w'" "search e m (requested_ctx m) c low high best lastErr w =
      search e m (requested_ctx m) c low (wrap64 (mid - 1)) best err w'"
proof -
  let ?s = "search e m (requested_ctx m) c low high best lastErr w"
  obtain x w1 where bc: "budget_check e m (requested_ctx m) w = (x, w1)" by fastforce
  obtain q w2 where l: "launchConfig BudgetCtx e m cfg (set_progress cfg w1) = (q, w2)" by fastforce
  obtain y w3 where bc2: "budget_check e m (requested_ctx m) w2 = (y, w3)" by fastforce
  note b1 = budget_check_cases [OF bc] and b2 = budget_check_cases [OF bc2]
  have s: "?s = (case x of Some r \<Rightarrow> Some (Return r, w1) | None \<Rightarrow>
      (case q of Inr n \<Rightarrow> search e m (requested_ctx m) c (wrap64 (mid + 1)) high (Some cfg) lastErr
           (snd (stopInstance e (Some n) w2))
       | Inl err \<Rightarrow> (case y of Some r \<Rightarrow> Some (Return r, w3) | None \<Rightarrow>
           (if IsOOM (Some err) then search e m (requested_ctx m) c low (wrap64 (mid - 1)) best err w3
            else Some (Return (Inl (non_memory err)), w3)))))"
    using assms(1) bc l bc2 unfolding mid_def cfg_def
    by (subst search.simps) (simp add: Let_def split: option.split sum.split)
  show ?thesis
  proof (cases x)
    case (Some r)
    then show ?thesis using s b1 ends_well_mono [of e m 1 w r w1 2] by (intro returns [of r w1]) simp_all
  next
    case None
    then have q1: "quiet e 0 w (set_progress cfg w1)"
      using quiet_trans [OF _ quiet_progress, of e 0 w w1 cfg] b1 by simp
    show ?thesis
    proof (cases q)
      case (Inr n)
      then show ?thesis
        using s None quiet_trans [OF q1 quiet_probe] l
        by (intro upper [of "snd (stopInstance e (Some n) w2)"]) simp_all
    next
      case (Inl err)
      have q2: "quiet e 1 w w2" using quiet_trans [OF q1 quiet_launch_fails] l Inl by simp
      have "ends_well e m 2 w r w3" if "y = Some r" for r
        using ends_well_trans [OF q2, of m 1 r w3] b2 that by (simp add: numeral_2_eq_2)
      moreover have q3: "quiet e 1 w w3" if "y = None"
        using quiet_trans [OF q2, of 0 w3] b2 that by simp
      ultimately show ?thesis
        using s None Inl quiet_mono [of e 1 w w3 2]
        by (cases y; cases "IsOOM (Some err)")
           (auto intro: returns [of _ w3] lower [of w3 err] simp: ends_well_def)
    qed
  qed
qed

lemma search_done: "high < low \<Longrightarrow> search e m ctxLen c low high best lastErr w = Some (Ended (best, lastErr), w)"
  by (subst search.simps) simp

definition search_ends ::
  "machine \<Rightarrow> Model \<Rightarrow> u64 \<Rightarrow> int \<Rightarrow> tunableFlags option \<Rightarrow> nat \<Rightarrow> world \<Rightarrow>
     (tunableFlags option \<times> go_error) loop_end \<Rightarrow> world \<Rightarrow> bool"
where
  "search_ends e m c high best k w x w' \<longleftrightarrow>
     (case x of
        Return r \<Rightarrow> ends_well e m k w r w'
      | Ended (best', _) \<Rightarrow> quiet e k w w' \<and>
          (\<forall>cfg. best' = Some cfg \<longrightarrow> best = Some cfg \<or> CtxLen cfg = c \<and> uint (Offload cfg) \<le> high))"

lemma search_ends_trans:
  assumes "quiet e k w w'" "search_ends e m c high' best' l w' x w''"
    and "high' \<le> high" "best' = best \<or> (\<exists>cfg. best' = Some cfg \<and> CtxLen cfg = c \<and> uint (Offload cfg) \<le> high)"
  shows "search_ends e m c high best (k + l) w x w''"
proof (cases x)
  case (Return r)
  with assms(2) show ?thesis by (simp add: search_ends_def ends_well_trans [OF assms(1)])
next
  case (Ended p)
  obtain b err where p: "p = (b, err)" by (cases p)
  have "b = Some cfg \<Longrightarrow> best = Some cfg \<or> CtxLen cfg = c \<and> uint (Offload cfg) \<le> high" for cfg
    using assms(2-4) unfolding Ended p search_ends_def by fastforce
  with assms(2) show ?thesis
    unfolding Ended p search_ends_def by (simp add: quiet_trans [OF assms(1)])
qed

lemma search_terminates:
  assumes "0 \<le> low" "high < 2 ^ 63 - 1" "high - low + 1 < 2 ^ k"
  shows "\<exists>x w'. search e m (requested_ctx m) c low high best lastErr w = Some (x, w') \<and>
           search_ends e m c high best (k + 1) w x w'"
  using assms
proof (induction k arbitrary: low high best lastErr w)
  case 0
  then have "quiet e 1 w w" using quiet_mono [OF quiet_tick [of e w "w_tick w"], of 1] by simp
  with 0 show ?case by (simp add: search_done search_ends_def)
next
  case (Suc k)
  show ?case
  proof (cases "low \<le> high")
    case False
    have "quiet e (Suc k + 1) w w" using quiet_mono [OF quiet_tick [of e w "w_tick w"]] by simp
    with False show ?thesis by (simp add: search_done search_ends_def)
  next
    case True
    note mid = search_mid [OF Suc.prems(1) True Suc.prems(2,3)]
    show ?thesis
    proof (cases rule: search_round [OF True, of e m c best lastErr w])
      case (1 r w')
      then show ?thesis using ends_well_mono [of e m 2 w r w' "Suc k + 1"] by (simp add: search_ends_def)
    next
      case (2 w')
      obtain y w4 where "search e m (requested_ctx m) c
          (wrap64 (low + half (wrap64 (high - low))) + 1) high
          (Some \<lparr>CtxLen = c, Offload = word_of_int (wrap64 (low + half (wrap64 (high - low))))\<rparr>) lastErr w' = Some (y, w4)"
        "search_ends e m c high
          (Some \<lparr>CtxLen = c, Offload = word_of_int (wrap64 (low + half (wrap64 (high - low))))\<rparr>) (k + 1) w' y w4"
        using Suc.IH [OF _ Suc.prems(2) mid(5)] mid(1) Suc.prems(1) by force
      then show ?thesis
        using 2(2) mid(2,3,7) search_ends_trans [OF 2(1), of m c high _ "k + 1" y w4 high best] by auto
    next
      case (3 err w')
      obtain y w4 where "search e m (requested_ctx m) c low
          (wrap64 (low + half (wrap64 (high - low))) - 1) best err w' = Some (y, w4)"
        "search_ends e m c (wrap64 (low + half (wrap64 (high - low))) - 1) best (k + 1) w' y w4"
        using Suc.IH [OF Suc.prems(1) _ mid(6)] mid(2) Suc.prems(2) by force
      then show ?thesis
        using 3(2) mid(2,4) search_ends_trans [OF 3(1), of m c _ best "k + 1" y w4 high best] by auto
    qed
  qed
qed

subsection \<open>The whole of Tuning\<close>

lemma launch_best_ends:
  assumes "candidate m cfg" "launch_best e m (requested_ctx m) cfg w = (r, w')"
  shows "ends_well e m 2 w r w'"
proof -
  obtain q w1 where l: "launchConfig BudgetCtx e m cfg (set_progress cfg w) = (q, w1)" by fastforce
  have q0: "quiet e 0 w (set_progress cfg w)" by (rule quiet_progress)
  show ?thesis
  proof (cases q)
    case (Inr n)
    then show ?thesis
      using ends_wellI_budget [OF quiet_mono [OF q0, of 2] assms(1) l [unfolded Inr]] assms(2) l
      by (simp add: launch_best_def)
  next
    case (Inl err)
    have q1: "quiet e 1 w w1" using quiet_trans [OF q0 quiet_launch_fails] l Inl by fastforce
    obtain x w2 where bc: "budget_check e m (requested_ctx m) w1 = (x, w2)" by fastforce
    show ?thesis
    proof (cases x)
      case None
      have "quiet e 1 w w2" using quiet_trans [OF q1, of 0 w2] budget_check_cases [OF bc] None by simp
      then show ?thesis
        using assms(2) l Inl bc None quiet_mono [of e 1 w w2 2] by (auto simp: launch_best_def ends_well_def)
    next
      case (Some r')
      then show ?thesis
        using assms(2) l Inl bc ends_well_trans [OF q1, of m 1 r' w2] budget_check_cases [OF bc]
        by (simp add: launch_best_def numeral_2_eq_2)
    qed
  qed
qed

definition ctx_ends :: "machine \<Rightarrow> Model \<Rightarrow> nat \<Rightarrow> world \<Rightarrow> go_error loop_end \<Rightarrow> world \<Rightarrow> bool" where
  "ctx_ends e m k w x w' \<longleftrightarrow>
     (case x of Return r \<Rightarrow> ends_well e m k w r w' | Ended _ \<Rightarrow> quiet e k w w')"

lemma tune_ctx_search_ends:
  assumes "max_offload m \<noteq> 2 ^ 63" "c \<in> set (ladder (requested_ctx m))"
  shows "\<exists>x w'. (case search e m (requested_ctx m) c 0 (wrap64 (sint (max_offload m) - 1)) None err w of
                    None \<Rightarrow> None
                  | Some (Return r, w) \<Rightarrow> Some (Return r, w)
                  | Some (Ended (Some bestCfg, _), w) \<Rightarrow>
                      (let (r, w) = launch_best e m (requested_ctx m) bestCfg w in Some (Return r, w))
                  | Some (Ended (None, lastErr), w) \<Rightarrow> Some (Ended lastErr, w)) = Some (x, w') \<and>
           ctx_ends e m 66 w x w'"
proof -
  let ?h = "sint (max_offload m) - 1"
  have "sint (max_offload m) \<noteq> - (2 ^ 63)"
  proof
    assume "sint (max_offload m) = - (2 ^ 63)"
    moreover define u where "u = uint (max_offload m)"
    ultimately have "(if u < 2 ^ 63 then u else u - 2 ^ 64) = - (2 ^ 63)" by (simp only: sint64)
    moreover have "0 \<le> u" by (simp add: u_def)
    ultimately have "u = 2 ^ 63" by (simp split: if_splits)
    then have "uint (max_offload m) = 2 ^ 63" by (simp add: u_def)
    with assms(1) show False by (simp add: word_uint_eq_iff)
  qed
  then have h: "wrap64 ?h = ?h" "?h < 2 ^ 63 - 1"
    using sint_ge [of "max_offload m"] sint_lt [of "max_offload m"] by (auto intro!: wrap64_id)
  obtain x w1 where s: "search e m (requested_ctx m) c 0 ?h None err w = Some (x, w1)"
    "search_ends e m c ?h None 64 w x w1"
    using search_terminates [of 0 ?h 63 e m c None err w] h(2) by auto
  show ?thesis
  proof (cases x)
    case (Return r)
    then show ?thesis using s ends_well_mono [of e m 64 w r w1 66]
      by (simp add: h(1) ctx_ends_def search_ends_def)
  next
    case (Ended p)
    obtain best lastErr where p: "p = (best, lastErr)" by (cases p)
    show ?thesis
    proof (cases best)
      case None
      then show ?thesis using s Ended p quiet_mono [of e 64 w w1 66]
        by (simp add: h(1) ctx_ends_def search_ends_def)
    next
      case (Some cfg)
      obtain r w2 where l: "launch_best e m (requested_ctx m) cfg w1 = (r, w2)" by fastforce
      have cfg: "CtxLen cfg = c" "uint (Offload cfg) \<le> ?h" "quiet e 64 w w1"
        using s(2) Ended p Some by (auto simp: search_ends_def)
      then have "Offload cfg \<le> max_offload m"
        by (auto simp: word_le_def sint64 split: if_splits)
      then have "candidate m cfg" using cfg assms(2) by (simp add: candidate_def)
      from ends_well_trans [OF cfg(3) launch_best_ends [OF this l]]
      show ?thesis using s Ended p Some l by (simp add: h(1) ctx_ends_def)
    qed
  qed
qed

lemma tune_ctx_ends:
  assumes "max_offload m \<noteq> 2 ^ 63" "c \<in> set (ladder (requested_ctx m))"
  shows "\<exists>x w'. tune_ctx e m (requested_ctx m) c w = Some (x, w') \<and> ctx_ends e m 67 w x w'"
proof -
  let ?cfg = "\<lparr>CtxLen = c, Offload = max_offload m\<rparr>"
  obtain x w1 where bc: "budget_check e m (requested_ctx m) w = (x, w1)" by fastforce
  obtain q w2 where l: "launchConfig BudgetCtx e m ?cfg (set_progress ?cfg w1) = (q, w2)" by fastforce
  obtain y w3 where bc2: "budget_check e m (requested_ctx m) w2 = (y, w3)" by fastforce
  note b1 = budget_check_cases [OF bc] and b2 = budget_check_cases [OF bc2]
  show ?thesis
  proof (cases x)
    case (Some r)
    then show ?thesis using bc b1 ends_well_mono [of e m 1 w r w1 67] by (simp add: tune_ctx_def ctx_ends_def)
  next
    case None
    then have q1: "quiet e 0 w (set_progress ?cfg w1)"
      using quiet_trans [OF _ quiet_progress, of e 0 w w1 ?cfg] b1 by simp
    show ?thesis
    proof (cases q)
      case (Inr n)
      have "candidate m ?cfg" using assms(2) by (simp add: candidate_def)
      from ends_wellI_budget [OF quiet_mono [OF q1, of 67] this l [unfolded Inr]]
      show ?thesis using bc l None Inr by (simp add: tune_ctx_def ctx_ends_def)
    next
      case (Inl err)
      have q2: "quiet e 1 w w2" using quiet_trans [OF q1 quiet_launch_fails] l Inl by fastforce
      show ?thesis
      proof (cases y)
        case (Some r)
        then show ?thesis
          using bc l None Inl bc2 b2 ends_well_mono [OF ends_well_trans [OF q2, of m 1 r w3], of 67]
          by (simp add: tune_ctx_def ctx_ends_def)
      next
        case none: None
        have q3: "quiet e 1 w w3" using quiet_trans [OF q2, of 0 w3] b2 none by simp
        obtain z w4 where z: "(case search e m (requested_ctx m) c 0 (wrap64 (sint (max_offload m) - 1)) None err w3 of
                    None \<Rightarrow> None
                  | Some (Return r, w) \<Rightarrow> Some (Return r, w)
                  | Some (Ended (Some bestCfg, _), w) \<Rightarrow>
                      (let (r, w) = launch_best e m (requested_ctx m) bestCfg w in Some (Return r, w))
                  | Some (Ended (None, lastErr), w) \<Rightarrow> Some (Ended lastErr, w)) = Some (z, w4)"
          "ctx_ends e m 66 w3 z w4"
          using tune_ctx_search_ends [OF assms] by blast
        then have "ctx_ends e m 67 w z w4"
          using ends_well_trans [OF q3, of m 66 _ w4] quiet_trans [OF q3, of 66 w4]
          by (auto simp: ctx_ends_def split: loop_end.splits)
        moreover have "ctx_ends e m 67 w (Return (Inl (non_memory err))) w3"
          using quiet_mono [OF q3, of 67] by (simp add: ctx_ends_def ends_well_def)
        ultimately show ?thesis
          using z(1) bc l None Inl bc2 none by (cases "IsOOM (Some err)") (simp_all add: tune_ctx_def)
      qed
    qed
  qed
qed

lemma tune_ladder_ends:
  assumes "max_offload m \<noteq> 2 ^ 63" "set cs \<subseteq> set (ladder (requested_ctx m))"
  shows "\<exists>r w'. tune_ladder e m (requested_ctx m) cs lastErr w = Some (r, w') \<and>
           ends_well e m (67 * length cs) w r w'"
  using assms(2)
proof (induction cs arbitrary: lastErr w)
  case Nil
  then show ?case using quiet_tick [of e w "w_tick w"] by (simp add: ends_well_def)
next
  case (Cons c cs)
  from Cons.prems have c: "c \<in> set (ladder (requested_ctx m))" and cs: "set cs \<subseteq> set (ladder (requested_ctx m))"
    by auto
  obtain x w1 where x: "tune_ctx e m (requested_ctx m) c w = Some (x, w1)" "ctx_ends e m 67 w x w1"
    using tune_ctx_ends [OF assms(1) c] by blast
  show ?case
  proof (cases x)
    case (Return r)
    then show ?thesis using x ends_well_mono [of e m 67 w r w1 "67 * length (c # cs)"] by (simp add: ctx_ends_def)
  next
    case (Ended err)
    obtain r w2 where "tune_ladder e m (requested_ctx m) cs (Some err) w1 = Some (r, w2)"
      "ends_well e m (67 * length cs) w1 r w2"
      using Cons.IH [OF cs] by blast
    then show ?thesis
      using x Ended ends_well_trans [of e 67 w w1 m "67 * length cs" r w2] by (simp add: ctx_ends_def)
  qed
qed

text \<open>The world in which the ladder is tried, and what becomes of it.\<close>

definition tune_start :: "machine \<Rightarrow> Model \<Rightarrow> world \<Rightarrow> world" where
  "tune_start e m w = evictAllResidentInstances e
     (start_progress (m_ID m) (e_time e (w_tick w)) (w\<lparr>w_tick := w_tick w + 1\<rparr>))"

lemma tune_ends:
  assumes "max_offload m \<noteq> 2 ^ 63"
  shows "\<exists>r w1. tune e m w = Some (r, tune_end w1) \<and> ends_well e m 536 (tune_start e m w) r w1"
proof -
  obtain r w1 where "tune_ladder e m (requested_ctx m) (ladder (requested_ctx m)) None (tune_start e m w) = Some (r, w1)"
    "ends_well e m (67 * length (ladder (requested_ctx m))) (tune_start e m w) r w1"
    using tune_ladder_ends [OF assms subset_refl] by blast
  then show ?thesis
    using ends_well_mono [of e m "67 * length (ladder (requested_ctx m))" _ r w1 536]
      ladder_length [of "requested_ctx m"]
    by (auto simp: tune_def tune_start_def Let_def)
qed

lemma stop_all_simps [simp]:
  "w_sup (stop_all e ns w) = w_sup w"
  "w_residents (stop_all e ns w) = w_residents w"
  "w_files (stop_all e ns w) = w_files w"
  "w_launches (stop_all e ns w) = w_launches w"
  "w_tick (stop_all e ns w) = w_tick w"
  "w_contexts (stop_all e ns w) = w_contexts w"
  "stops_ok e \<Longrightarrow> w_running (stop_all e ns w) = foldl (\<lambda>r n. remove1 n r) (w_running w) ns"
  by (induction ns arbitrary: w) simp_all

lemma evictAll_simps [simp]:
  "w_sup (evictAllResidentInstances e w) = (w_sup w)\<lparr>s_instances := []\<rparr>"
  "w_files (evictAllResidentInstances e w) = w_files w"
  "w_launches (evictAllResidentInstances e w) = w_launches w"
  "stops_ok e \<Longrightarrow> w_running (evictAllResidentInstances e w) =
     foldl (\<lambda>r n. remove1 n r) (w_running w) (processes_of (s_instances (w_sup w)) (w_residents w))"
  by (simp_all add: evictAllResidentInstances_def Let_def)

lemma progress_simps [simp]:
  "w_running (start_progress i t w) = w_running w"
  "w_launches (start_progress i t w) = w_launches w"
  "w_files (start_progress i t w) = w_files w"
  "w_residents (start_progress i t w) = w_residents w"
  "w_tick (start_progress i t w) = w_tick w"
  "s_tuned (w_sup (start_progress i t w)) = s_tuned (w_sup w)"
  "s_instances (w_sup (start_progress i t w)) = s_instances (w_sup w)"
  "s_config (w_sup (start_progress i t w)) = s_config (w_sup w)"
  "s_slotsPerInstance (w_sup (start_progress i t w)) = s_slotsPerInstance (w_sup w)"
  "s_tuningActiveModel (w_sup (start_progress i t w)) = i"
  "s_tuningProbeCount (w_sup (start_progress i t w)) = 0"
  "s_tuningCurrentCtx (w_sup (start_progress i t w)) = 0"
  "s_tuningCurrentOffload (w_sup (start_progress i t w)) = 0"
  by (simp_all add: start_progress_def)

lemma tune_start_simps [simp]:
  "w_launches (tune_start e m w) = w_launches w"
  "w_files (tune_start e m w) = w_files w"
  "w_running (tune_start e m w) = w_running (evictAllResidentInstances e w)"
  "s_tuned (w_sup (tune_start e m w)) = s_tuned (w_sup w)"
  "s_instances (w_sup (tune_start e m w)) = []"
  "s_config (w_sup (tune_start e m w)) = s_config (w_sup w)"
  "s_slotsPerInstance (w_sup (tune_start e m w)) = s_slotsPerInstance (w_sup w)"
proof -
  have st: "w_running (stop_all e ns v) = w_running (stop_all e ns v')"
    if "w_running v = w_running v'" for ns v v'
    using that
  proof (induction ns arbitrary: v v')
    case (Cons n ns)
    have "w_running (snd (stopInstance e (Some n) v)) = w_running (snd (stopInstance e (Some n) v'))"
      using Cons.prems by (simp add: stopInstance_def split: option.split)
    then show ?case unfolding stop_all.simps by (rule Cons.IH)
  qed simp
  show "w_running (tune_start e m w) = w_running (evictAllResidentInstances e w)"
    unfolding tune_start_def evictAllResidentInstances_def Let_def
    by (simp, rule st, simp)
qed (simp_all add: tune_start_def)

lemma same_sup_fields:
  assumes "same_sup s s'"
  shows "s_tuned s' = s_tuned s" "s_instances s' = s_instances s" "s_config s' = s_config s"
    "s_slotsPerInstance s' = s_slotsPerInstance s" "s_cachePath s' = s_cachePath s"
  using assms by (auto simp: same_sup_def)

lemma launchConfig_ok:
  assumes "launchConfig ctx e m cfg w = (Inr n, w')"
  shows "n = length (w_launches w) \<and> w_sup w' = w_sup w \<and> w_files w' = w_files w \<and>
    w_running w' = n # w_running w \<and> w_residents w' = w_residents w \<and> w_tick w' = w_tick w \<and>
    w_launches w' = w_launches w @ [launch_argv (s_config (w_sup w)) (s_slotsPerInstance (w_sup w)) m cfg]"
  using assms by (auto simp: launchConfig_def Let_def split: launch_outcome.splits)

lemma launchConfig_keeps:
  assumes "launchConfig ctx e m cfg w = (r, w')"
  shows "w_sup w' = w_sup w \<and> w_files w' = w_files w \<and>
    w_launches w' = w_launches w @ [launch_argv (s_config (w_sup w)) (s_slotsPerInstance (w_sup w)) m cfg]"
  using assms by (auto simp: launchConfig_def Let_def split: launch_outcome.splits)

lemma flags_eta [simp]: "\<lparr>CtxLen = CtxLen cfg, Offload = Offload cfg\<rparr> = cfg"
  by (cases cfg) simp

lemma record_entry_simps [simp]:
  "w_launches (record_entry e m c cfg n w) = w_launches w"
  "w_running (record_entry e m c cfg n w) = w_running w"
  "w_residents (record_entry e m c cfg n w) = w_residents w"
  "s_instances (w_sup (record_entry e m c cfg n w)) = s_instances (w_sup w)"
  "s_config (w_sup (record_entry e m c cfg n w)) = s_config (w_sup w)"
  "s_slotsPerInstance (w_sup (record_entry e m c cfg n w)) = s_slotsPerInstance (w_sup w)"
  "s_tuned (w_sup (record_entry e m c cfg n w)) =
     (s_tuned (w_sup w))(m_ID m \<mapsto> entry_of e m c cfg n (w_tick w))"
  by (simp_all add: record_entry_def Let_def)

lemma entry_of_simps [simp]:
  "cache_hit e m (entry_of e m (requested_ctx m) cfg n t)"
  "te_ResultingCtx (entry_of e m c cfg n t) = CtxLen cfg"
  "te_Offload (entry_of e m c cfg n t) = Offload cfg"
  by (simp_all add: cache_hit_def entry_of_def)

text \<open>What a successful Tuning run has done, at the level of the whole world.\<close>

lemma tune_success:
  assumes "max_offload m \<noteq> 2 ^ 63" "tune e m w = Some (Inr n, w')"
  obtains cfg t where "candidate m cfg" "n + 1 = length (w_launches w')"
    "w_launches w' ! n = launch_argv (s_config (w_sup w)) (s_slotsPerInstance (w_sup w)) m cfg"
    "s_tuned (w_sup w') = (s_tuned (w_sup w))(m_ID m \<mapsto> entry_of e m (requested_ctx m) cfg n t)"
    "s_config (w_sup w') = s_config (w_sup w)"
    "s_slotsPerInstance (w_sup w') = s_slotsPerInstance (w_sup w)"
proof -
  obtain w1 where w1: "w' = tune_end w1" "ends_well e m 536 (tune_start e m w) (Inr n) w1"
    using tune_ends [OF assms(1), of e w] assms(2) by auto
  then obtain v v' cfg ctx where v: "quiet e 536 (tune_start e m w) v" "candidate m cfg"
    "launchConfig ctx e m cfg v = (Inr n, v')" "w1 = close_fallback ctx (record_entry e m (requested_ctx m) cfg n v')"
    by (auto simp: ends_well_def)
  have "same_sup (w_sup (tune_start e m w)) (w_sup v)" using v(1) by (simp add: quiet_def)
  note ss = same_sup_fields [OF this]
  show ?thesis
    by (rule that [of cfg "w_tick v'"])
       (use v(2) launchConfig_ok [OF v(3)] ss in \<open>simp_all add: w1(1) v(4) nth_append\<close>)
qed

subsection \<open>A machine limited by its memory\<close>

text \<open>
  A machine on which a launch is ready exactly when the configuration fits and fails for lack of
  memory otherwise, where less offload fits whenever more does, and whose budget lasts.
\<close>

definition memory_limited ::
  "machine \<Rightarrow> Model \<Rightarrow> Supervisor \<Rightarrow> (u64 \<Rightarrow> u64 \<Rightarrow> bool) \<Rightarrow> bool"
where
  "memory_limited e m s fits \<longleftrightarrow>
     (\<forall>n cfg. let argv = launch_argv (s_config s) (s_slotsPerInstance s) m cfg
              in if fits (CtxLen cfg) (Offload cfg) then e_launch e n argv = Ready
                 else \<exists>err. e_launch e n argv \<in> {NotReady err, LaunchFails err} \<and> IsOOM (Some err)) \<and>
     (\<forall>c l l'. fits c l \<and> l' \<le> l \<longrightarrow> fits c l') \<and>
     (\<forall>t. e_budget e t = None)"

lemma memory_limited_same:
  "memory_limited e m s fits \<Longrightarrow> same_sup s s' \<Longrightarrow> memory_limited e m s' fits"
  by (simp add: memory_limited_def same_sup_fields)

lemma limited_budget:
  "memory_limited e m s fits \<Longrightarrow> budget_check e m' c w = (None, w\<lparr>w_tick := w_tick w + 1\<rparr>)"
  by (simp add: memory_limited_def budget_check_def Let_def)

lemma limited_launch:
  assumes "memory_limited e m (w_sup w) fits"
  shows "fits (CtxLen cfg) (Offload cfg) \<Longrightarrow> \<exists>n w'. launchConfig ctx e m cfg w = (Inr n, w')"
    and "\<not> fits (CtxLen cfg) (Offload cfg) \<Longrightarrow>
      \<exists>err w'. launchConfig ctx e m cfg w = (Inl err, w') \<and> IsOOM (Some err)"
proof -
  let ?n = "length (w_launches w)"
  let ?argv = "launch_argv (s_config (w_sup w)) (s_slotsPerInstance (w_sup w)) m cfg"
  have "if fits (CtxLen cfg) (Offload cfg) then e_launch e ?n ?argv = Ready
        else \<exists>err. e_launch e ?n ?argv \<in> {NotReady err, LaunchFails err} \<and> IsOOM (Some err)"
    using assms unfolding memory_limited_def Let_def by blast
  then show "fits (CtxLen cfg) (Offload cfg) \<Longrightarrow> \<exists>n w'. launchConfig ctx e m cfg w = (Inr n, w')"
    "\<not> fits (CtxLen cfg) (Offload cfg) \<Longrightarrow>
      \<exists>err w'. launchConfig ctx e m cfg w = (Inl err, w') \<and> IsOOM (Some err)"
    by (auto simp: launchConfig_def Let_def)
qed

lemma limited_probe:
  assumes "memory_limited e m (w_sup w) fits"
  obtains (fits) n w' where "fits (CtxLen cfg) (Offload cfg)"
      "launchConfig BudgetCtx e m cfg (set_progress cfg w) = (Inr n, w')" "same_sup (w_sup w) (w_sup w')"
  | (oom) err w' where "\<not> fits (CtxLen cfg) (Offload cfg)"
      "launchConfig BudgetCtx e m cfg (set_progress cfg w) = (Inl err, w')" "IsOOM (Some err)" "same_sup (w_sup w) (w_sup w')"
proof -
  have ss: "same_sup (w_sup w) (w_sup (set_progress cfg w))" using quiet_progress [of e w cfg] by (simp add: quiet_def)
  note ml = limited_launch [OF memory_limited_same [OF assms ss], of cfg]
  show ?thesis
  proof (cases "fits (CtxLen cfg) (Offload cfg)")
    case True
    with ml(1) obtain n w' where l: "launchConfig BudgetCtx e m cfg (set_progress cfg w) = (Inr n, w')" by blast
    show ?thesis using fits [OF True l] launchConfig_keeps [OF l] ss by simp
  next
    case False
    with ml(2) obtain err w' where l: "launchConfig BudgetCtx e m cfg (set_progress cfg w) = (Inl err, w')" "IsOOM (Some err)"
      by blast
    show ?thesis using oom [OF False l] launchConfig_keeps [OF l(1)] ss by simp
  qed
qed

text \<open>What the search knows: what lies below its interval fits, what lies above does not.\<close>

definition search_inv ::
  "(u64 \<Rightarrow> u64 \<Rightarrow> bool) \<Rightarrow> u64 \<Rightarrow> int \<Rightarrow> int \<Rightarrow> int \<Rightarrow> tunableFlags option \<Rightarrow> bool"
where
  "search_inv fits c maxl low high best \<longleftrightarrow>
     0 \<le> low \<and> low \<le> high + 1 \<and> high < 2 ^ 63 - 1 \<and>
     (\<forall>l. uint l > high \<and> uint l \<le> maxl \<longrightarrow> \<not> fits c l) \<and>
     (case best of
        None \<Rightarrow> low = 0
      | Some cfg \<Rightarrow> CtxLen cfg = c \<and> uint (Offload cfg) = low - 1 \<and> fits c (Offload cfg))"

lemma search_finds_best:
  assumes "memory_limited e m (w_sup w) fits" "search_inv fits c maxl low high best" "high - low + 1 < 2 ^ k"
  shows "\<exists>best' err w'. search e m ctxLen c low high best lastErr w = Some (Ended (best', err), w') \<and>
    same_sup (w_sup w) (w_sup w') \<and> (\<exists>h. search_inv fits c maxl (h + 1) h best')"
  using assms
proof (induction k arbitrary: low high best lastErr w)
  case 0
  then have h: "high < low" by simp
  with 0 have "low = high + 1" by (simp add: search_inv_def)
  with 0 show ?case by (auto simp: search_done same_sup_refl)
next
  case (Suc k)
  show ?case
  proof (cases "low \<le> high")
    case False
    with Suc.prems have "low = high + 1" by (simp add: search_inv_def)
    with Suc.prems False show ?thesis by (auto simp: search_done same_sup_refl)
  next
    case True
    have inv: "0 \<le> low" "high < 2 ^ 63 - 1" using Suc.prems(2) by (simp_all add: search_inv_def)
    define mid where "mid = wrap64 (low + half (wrap64 (high - low)))"
    define cfg where "cfg = \<lparr>CtxLen = c, Offload = word_of_int mid :: u64\<rparr>"
    note mid = search_mid [OF inv(1) True inv(2) Suc.prems(3), folded mid_def]
    let ?w1 = "w\<lparr>w_tick := w_tick w + 1\<rparr>"
    have ml1: "memory_limited e m (w_sup ?w1) fits" using Suc.prems(1) by simp
    note bc = limited_budget [OF Suc.prems(1), of m ctxLen]
    show ?thesis
    proof (cases rule: limited_probe [OF ml1, of cfg])
      case (1 n w2)
      have "search e m ctxLen c low high best lastErr w =
          search e m ctxLen c (mid + 1) high (Some cfg) lastErr (snd (stopInstance e (Some n) w2))"
        using True 1(2) bc mid(3) by (subst search.simps) (simp add: Let_def flip: mid_def cfg_def)
      moreover have "search_inv fits c maxl (mid + 1) high (Some cfg)"
        using Suc.prems(2) mid(1,2,7) 1(1) by (simp add: search_inv_def cfg_def)
      ultimately show ?thesis
        using Suc.IH [of "snd (stopInstance e (Some n) w2)" "mid + 1" high "Some cfg" lastErr] mid(5)
          memory_limited_same [OF ml1 1(3)] same_sup_trans [OF 1(3)] by fastforce
    next
      case (2 err w2)
      let ?w3 = "w2\<lparr>w_tick := w_tick w2 + 1\<rparr>"
      have "search e m ctxLen c low high best lastErr w = search e m ctxLen c low (mid - 1) best err ?w3"
        using True 2(2,3) bc mid(4) limited_budget [OF Suc.prems(1), of m ctxLen w2]
        by (subst search.simps) (simp add: Let_def flip: mid_def cfg_def)
      moreover have "\<not> fits c l" if "uint l > mid - 1" for l
      proof
        assume "fits c l"
        moreover have "word_of_int mid \<le> l" using that mid(7) by (simp add: word_le_def)
        ultimately have "fits c (word_of_int mid)" using Suc.prems(1) unfolding memory_limited_def by blast
        with 2(1) show False by (simp add: cfg_def)
      qed
      then have "search_inv fits c maxl low (mid - 1) best"
        using Suc.prems(2) mid(1,2) by (auto simp: search_inv_def)
      ultimately show ?thesis
        using Suc.IH [of ?w3 low "mid - 1" best err] mid(6)
          memory_limited_same [OF ml1 2(4)] same_sup_trans [OF 2(4)] by fastforce
    qed
  qed
qed

text \<open>The best offload at a context length, and the launch that ends a turn of the ladder with it.\<close>

definition best_at :: "(u64 \<Rightarrow> u64 \<Rightarrow> bool) \<Rightarrow> Model \<Rightarrow> u64 \<Rightarrow> tunableFlags \<Rightarrow> bool" where
  "best_at fits m c cfg \<longleftrightarrow>
     CtxLen cfg = c \<and> fits c (Offload cfg) \<and> Offload cfg \<le> max_offload m \<and>
     (\<forall>l \<le> max_offload m. fits c l \<longrightarrow> l \<le> Offload cfg)"

definition launched :: "machine \<Rightarrow> Model \<Rightarrow> u64 \<Rightarrow> tunableFlags \<Rightarrow> world \<Rightarrow> nat \<Rightarrow> world \<Rightarrow> bool" where
  "launched e m ctxLen cfg w n w' \<longleftrightarrow>
     (\<exists>v v'. same_sup (w_sup w) (w_sup v) \<and> launchConfig BudgetCtx e m cfg v = (Inr n, v') \<and>
        w' = record_entry e m ctxLen cfg n v')"

lemma launched_same: "same_sup (w_sup w) (w_sup w') \<Longrightarrow> launched e m c cfg w' n w'' \<Longrightarrow> launched e m c cfg w n w''"
  unfolding launched_def using same_sup_trans by blast

lemma search_inv_best:
  assumes "search_inv fits c (uint (max_offload m) - 1) (h + 1) h (Some cfg)" "\<not> fits c (max_offload m)"
    and "\<forall>c l l'. fits c l \<and> l' \<le> l \<longrightarrow> fits c l'"
  shows "best_at fits m c cfg"
proof -
  have inv: "CtxLen cfg = c" "uint (Offload cfg) = h" "fits c (Offload cfg)"
    "\<And>l. uint l > h \<Longrightarrow> uint l \<le> uint (max_offload m) - 1 \<Longrightarrow> \<not> fits c l"
    using assms(1) by (auto simp: search_inv_def)
  have le: "l \<le> Offload cfg" if "fits c l" "l \<le> max_offload m" for l
  proof -
    have "l \<noteq> max_offload m" using that(1) assms(2) by auto
    with that(2) have "uint l < uint (max_offload m)" by (simp add: word_le_def order_less_le word_uint_eq_iff)
    with inv(2,4) that(1) show ?thesis by (force simp: word_le_def)
  qed
  have "\<not> max_offload m \<le> Offload cfg" using assms(2,3) inv(3) by blast
  with inv le show ?thesis by (auto simp: best_at_def)
qed

lemma limited_ctx:
  assumes "memory_limited e m (w_sup w) fits" "uint (max_offload m) < 2 ^ 63"
  shows "(fits c 0 \<and> (\<exists>n w' cfg. tune_ctx e m ctxLen c w = Some (Return (Inr n), w') \<and>
            best_at fits m c cfg \<and> launched e m ctxLen cfg w n w')) \<or>
         (\<not> fits c 0 \<and> (\<exists>err w'. tune_ctx e m ctxLen c w = Some (Ended err, w') \<and>
            same_sup (w_sup w) (w_sup w')))"
proof -
  let ?cfg = "\<lparr>CtxLen = c, Offload = max_offload m\<rparr>"
  let ?w1 = "w\<lparr>w_tick := w_tick w + 1\<rparr>"
  have anti: "\<forall>c l l'. fits c l \<and> l' \<le> l \<longrightarrow> fits c l'" using assms(1) by (simp add: memory_limited_def)
  have ml1: "memory_limited e m (w_sup ?w1) fits" using assms(1) by simp
  note bc = limited_budget [OF assms(1), of m ctxLen]
  show ?thesis
  proof (cases rule: limited_probe [OF ml1, of ?cfg])
    case (1 n w2)
    have "tune_ctx e m ctxLen c w = Some (Return (Inr n), record_entry e m ctxLen ?cfg n w2)"
      using 1(2) bc by (simp add: tune_ctx_def)
    moreover have "best_at fits m c ?cfg" "fits c 0"
      using 1(1) anti by (auto simp: best_at_def)
    moreover have "launched e m ctxLen ?cfg w n (record_entry e m ctxLen ?cfg n w2)"
      unfolding launched_def using 1(2) quiet_progress [of e ?w1 ?cfg] by (force simp: quiet_def)
    ultimately show ?thesis by blast
  next
    case (2 err w2)
    let ?w3 = "w2\<lparr>w_tick := w_tick w2 + 1\<rparr>"
    let ?h = "uint (max_offload m) - 1"
    have ml3: "memory_limited e m (w_sup ?w3) fits" using memory_limited_same [OF ml1 2(4)] by simp
    have "wrap64 ?h = ?h" by (rule wrap64_id) (use assms(2) uint_ge_0 [of "max_offload m"] in linarith)+
    then have h: "wrap64 (sint (max_offload m) - 1) = ?h" "?h < 2 ^ 63 - 1"
      using assms(2) by (simp_all add: sint64)
    have "search_inv fits c ?h 0 ?h None" using h(2) by (auto simp: search_inv_def)
    from search_finds_best [OF ml3 this, of 63 ctxLen err] h(2)
    obtain best lastErr w4 h' where s: "search e m ctxLen c 0 ?h None err ?w3 = Some (Ended (best, lastErr), w4)"
      "same_sup (w_sup ?w3) (w_sup w4)" "search_inv fits c ?h (h' + 1) h' best"
      by auto
    have ss: "same_sup (w_sup w) (w_sup w4)" using same_sup_trans [of "w_sup w" "w_sup w2"] 2(4) s(2) by simp
    have t: "tune_ctx e m ctxLen c w = (case best of
        Some b \<Rightarrow> (let (r, w) = launch_best e m ctxLen b w4 in Some (Return r, w))
      | None \<Rightarrow> Some (Ended lastErr, w4))"
      using 2(2,3) bc s(1) by (simp add: tune_ctx_def h(1) split: option.split)
    show ?thesis
    proof (cases best)
      case None
      have "max_offload m \<noteq> 0" by (simp add: max_offload_def)
      then have "uint (max_offload m) \<noteq> 0" by (simp add: word_uint_eq_iff)
      then have "uint (0 :: u64) \<le> ?h" using order_le_neq_trans [OF uint_ge_0 [of "max_offload m"]] by force
      moreover have "h' < uint (0 :: u64)" using s(3) None by (simp add: search_inv_def)
      ultimately have "\<not> fits c 0" using s(3) unfolding search_inv_def by blast
      with t None ss show ?thesis by auto
    next
      case (Some b)
      have b: "best_at fits m c b" using search_inv_best s(3) 2(1) anti Some by auto
      then have f: "fits (CtxLen b) (Offload b)" "fits c 0" using anti by (auto simp: best_at_def)
      with limited_probe [OF memory_limited_same [OF assms(1) ss], of b]
      obtain n w5 where l: "launchConfig BudgetCtx e m b (set_progress b w4) = (Inr n, w5)" by metis
      then have "launched e m ctxLen b w n (record_entry e m ctxLen b n w5)"
        unfolding launched_def using same_sup_trans [OF ss] quiet_progress [of e w4 b] by (auto simp: quiet_def)
      with t Some l b f(2) show ?thesis by (auto simp: launch_best_def)
    qed
  qed
qed

lemma limited_ladder:
  assumes "memory_limited e m (w_sup w) fits" "uint (max_offload m) < 2 ^ 63"
  shows "case find (\<lambda>c. fits c 0) cs of
      None \<Rightarrow> (\<exists>err w'. tune_ladder e m ctxLen cs lastErr w = Some (Inl (unservable err), w'))
    | Some c \<Rightarrow> (\<exists>n w' cfg. tune_ladder e m ctxLen cs lastErr w = Some (Inr n, w') \<and>
        best_at fits m c cfg \<and> launched e m ctxLen cfg w n w')"
  using assms(1)
proof (induction cs arbitrary: lastErr w)
  case (Cons c cs)
  consider (yes) n w' cfg where "fits c 0" "tune_ctx e m ctxLen c w = Some (Return (Inr n), w')"
      "best_at fits m c cfg" "launched e m ctxLen cfg w n w'"
    | (no) err w' where "\<not> fits c 0" "tune_ctx e m ctxLen c w = Some (Ended err, w')" "same_sup (w_sup w) (w_sup w')"
    using limited_ctx [OF Cons.prems assms(2), of c ctxLen] by blast
  then show ?case
  proof cases
    case yes
    then show ?thesis by auto
  next
    case no
    have "memory_limited e m (w_sup w') fits" using memory_limited_same [OF Cons.prems no(3)] .
    from Cons.IH [OF this, of "Some err"] no show ?thesis
      by (auto split: option.splits intro: launched_same)
  qed
qed auto

section \<open>Properties\<close>

text \<open>
  C1. Tuning finds the best configuration the machine can run: on a machine limited by memory
  (a launch is ready exactly when its configuration fits, less offload fits whenever more does,
  and the budget lasts) it succeeds with the longest context of the ladder that fits at all, and
  with the largest offload within the block count that fits there; it returns a process launched
  with exactly these flags and stores them. Only when no rung fits even without offload does it
  report the Model as unservable.
\<close>

theorem tune_finds_best:
  assumes "memory_limited e m (w_sup w) fits" "uint (max_offload m) < 2 ^ 63"
  shows "case find (\<lambda>c. fits c 0) (ladder (requested_ctx m)) of
      None \<Rightarrow> (\<exists>err w'. tune e m w = Some (Inl (unservable err), w'))
    | Some c \<Rightarrow> (\<exists>n w' l entry. tune e m w = Some (Inr n, w') \<and>
        fits c l \<and> l \<le> max_offload m \<and> (\<forall>l' \<le> max_offload m. fits c l' \<longrightarrow> l' \<le> l) \<and>
        w_launches w' ! n =
          launch_argv (s_config (w_sup w)) (s_slotsPerInstance (w_sup w)) m \<lparr>CtxLen = c, Offload = l\<rparr> \<and>
        s_tuned (w_sup w') (m_ID m) = Some entry \<and> te_ResultingCtx entry = c \<and> te_Offload entry = l)"
proof -
  let ?w0 = "tune_start e m w"
  have ml: "memory_limited e m (w_sup ?w0) fits" using assms(1) by (simp add: memory_limited_def)
  have t: "tune e m w = map_option (\<lambda>(r, w). (r, tune_end w))
      (tune_ladder e m (requested_ctx m) (ladder (requested_ctx m)) None ?w0)"
    by (simp add: tune_def tune_start_def Let_def)
  note ll = limited_ladder [OF ml assms(2), where cs = "ladder (requested_ctx m)" and
      ctxLen = "requested_ctx m" and lastErr = None]
  show ?thesis
  proof (cases "find (\<lambda>c. fits c 0) (ladder (requested_ctx m))")
    case None
    with ll t show ?thesis by auto
  next
    case (Some c)
    with ll obtain n w1 cfg where r: "tune e m w = Some (Inr n, tune_end w1)"
      "best_at fits m c cfg" "launched e m (requested_ctx m) cfg ?w0 n w1"
      using t by auto
    then obtain v v' where v: "same_sup (w_sup ?w0) (w_sup v)" "launchConfig BudgetCtx e m cfg v = (Inr n, v')"
      "w1 = record_entry e m (requested_ctx m) cfg n v'"
      by (auto simp: launched_def)
    have "cfg = \<lparr>CtxLen = c, Offload = Offload cfg\<rparr>" using r(2) by (simp add: best_at_def)
    with launchConfig_ok [OF v(2)] same_sup_fields [OF v(1)] v(3)
    have "w_launches w1 ! n = launch_argv (s_config (w_sup w)) (s_slotsPerInstance (w_sup w)) m
        \<lparr>CtxLen = c, Offload = Offload cfg\<rparr>"
      by (simp add: nth_append)
    with r v(3) Some show ?thesis by (auto simp: best_at_def)
  qed
qed

text \<open>
  A machine with room for 9000 units, where an offloaded layer costs 100 and a unit of context
  one, reading the flags of the command line.
\<close>

definition sample_fits :: "u64 \<Rightarrow> u64 \<Rightarrow> bool" where
  "sample_fits c l \<longleftrightarrow> unat c + 100 * unat l \<le> 9000"

definition limited_machine :: machine where
  "limited_machine = sample_machine\<lparr>e_launch := \<lambda>_ argv.
     if digits_val (argv ! 4) + 100 * digits_val (argv ! 6) \<le> 9000 then Ready
     else NotReady (ErrProcess (ProcessError 1 True [] None))\<rparr>"

definition sample_world :: world where
  "sample_world = \<lparr>w_sup = initial_supervisor [] [], w_residents = Map.empty, w_files = Map.empty,
     w_running = [], w_launches = [], w_contexts = [], w_tick = 0\<rparr>"

lemma sample_limited: "memory_limited limited_machine sample_model (w_sup sample_world) sample_fits"
  unfolding memory_limited_def
  by (auto simp: Let_def launch_argv_def limited_machine_def sample_machine_def FormatUint_def
      digits_val_dec_string sample_fits_def word_le_nat_alt)

lemma sample_ctx: "requested_ctx sample_model = 8192" "max_offload sample_model = 32"
  by (simp_all add: requested_ctx_def max_offload_def sample_model_def)

theorem tune_finds_best_witness:
  "\<exists>n w' l. tune limited_machine sample_model sample_world = Some (Inr n, w') \<and>
     sample_fits 8192 l \<and> (\<forall>l' \<le> 32. sample_fits 8192 l' \<longrightarrow> l' \<le> l) \<and> l \<le> 32"
proof -
  have "find (\<lambda>c. sample_fits c 0) (ladder (requested_ctx sample_model)) = Some 8192"
    by (simp add: sample_ctx ladder_eq sample_fits_def)
  with tune_finds_best [OF sample_limited] show ?thesis by (auto simp: sample_ctx)
qed

text \<open>
  C8. Tuning always comes to an end, whatever the machine does: for every sequence of launch
  outcomes, stop failures, context errors and file failures, \<open>tune\<close> returns after at most 537
  launches (for every block count but the one, \<open>2^63\<close>, whose conversion to \<open>int\<close> overflows). On
  every path, errors included, the progress fields are cleared and no Instance is left in the
  registry; a failure leaves the Tuning entries and the cache file as they were.
\<close>

theorem tune_terminates:
  assumes "max_offload m \<noteq> 2 ^ 63"
  shows "\<exists>r w'. tune e m w = Some (r, w') \<and>
    length (w_launches w') \<le> length (w_launches w) + 537 \<and>
    s_tuningActiveModel (w_sup w') = [] \<and> s_tuningProbeCount (w_sup w') = 0 \<and>
    s_tuningCurrentCtx (w_sup w') = 0 \<and> s_tuningCurrentOffload (w_sup w') = 0 \<and>
    s_instances (w_sup w') = [] \<and>
    (\<forall>err. r = Inl err \<longrightarrow> s_tuned (w_sup w') = s_tuned (w_sup w) \<and> w_files w' = w_files w)"
proof -
  obtain r w1 where r: "tune e m w = Some (r, tune_end w1)" "ends_well e m 536 (tune_start e m w) r w1"
    using tune_ends [OF assms] by blast
  have "length (w_launches w1) \<le> length (w_launches w) + 537 \<and> s_instances (w_sup w1) = [] \<and>
      (\<forall>err. r = Inl err \<longrightarrow> s_tuned (w_sup w1) = s_tuned (w_sup w) \<and> w_files w1 = w_files w)"
    using r(2)
    by (cases r) (auto simp: ends_well_def quiet_def same_sup_def dest!: launchConfig_ok)
  with r(1) show ?thesis by simp
qed

theorem tune_terminates_witness:
  "\<exists>r w'. tune limited_machine sample_model sample_world = Some (r, w') \<and> s_instances (w_sup w') = []"
  using tune_terminates [of sample_model limited_machine sample_world] by (auto simp: sample_ctx)

lemma sample_tune: "\<exists>w'. tune sample_machine sample_model sample_world = Some (Inr 0, w')"
  by (simp add: tune_def Let_def sample_ctx ladder_eq tune_ctx_def budget_check_def sample_machine_def
      launchConfig_def start_progress_def evictAllResidentInstances_def processes_of_def
      map_filter_simps sample_world_def initial_supervisor_def set_progress_def)

text \<open>The contexts after the deferred calls of \<open>tune\<close>.\<close>

lemma start_progress_contexts [simp]: "w_contexts (start_progress i t w) = w_contexts w"
  by (simp add: start_progress_def)

lemma tune_contexts:
  assumes "launchConfig ctx e m cfg v = (Inr n, v')" "source e m cfg ctx"
    and "length (w_contexts v) = length (w_launches v)"
  shows "w_contexts (tune_end (close_fallback ctx (record_entry e m c cfg n v'))) ! n =
      (if ctx = LoadCtx then LoadCtx else EndedCtx)"
  using assms
  by (auto simp: launchConfig_def Let_def source_def close_fallback_def end_ctx_def start_progress_def record_entry_def
      nth_append split: launch_outcome.splits)

lemma no_budget_left: "BudgetCtx \<notin> set (w_contexts (tune_end w))"
  by (auto simp: end_ctx_def start_progress_def)

text \<open>
  C12. Tuning leaves no probe behind: when every \<open>Stop\<close> succeeds (and for every block count but
  \<open>2^63\<close>), the processes running when \<open>tune\<close> returns are those that ran before less the evicted
  Instances, and one more exactly when it succeeds, the one it returns, which is the last one
  launched. But the deferred \<open>cancel()\<close> has by then ended the context of the budget for every process
  launched with it: the returned process has a live context only if it is the fallback, launched
  with the context of the load after the budget ran out. Any other is returned with its context
  ended, so the machine will kill it.
\<close>

theorem tune_leaves_no_probe:
  assumes "max_offload m \<noteq> 2 ^ 63" "stops_ok e" "length (w_contexts w) = length (w_launches w)"
  shows "\<exists>r w'. tune e m w = Some (r, w') \<and>
    length (w_contexts w') = length (w_launches w') \<and> BudgetCtx \<notin> set (w_contexts w') \<and>
    (let others = foldl (\<lambda>r n. remove1 n r) (w_running w) (processes_of (s_instances (w_sup w)) (w_residents w))
     in case r of
          Inr n \<Rightarrow> w_running w' = n # others \<and> n + 1 = length (w_launches w') \<and>
            (w_contexts w' ! n = EndedCtx \<or>
             w_contexts w' ! n = LoadCtx \<and> (\<exists>t. e_budget e t \<noteq> None) \<and>
             w_launches w' ! n = launch_argv (s_config (w_sup w)) (s_slotsPerInstance (w_sup w)) m
               (fallback_cfg (requested_ctx m)))
        | Inl _ \<Rightarrow> w_running w' = others)"
proof -
  obtain r w1 where r: "tune e m w = Some (r, tune_end w1)" "ends_well e m 536 (tune_start e m w) r w1"
    using tune_ends [OF assms(1)] by blast
  have start: "length (w_contexts (tune_start e m w)) = length (w_launches (tune_start e m w))"
    using assms(3) by (simp add: tune_start_def evictAllResidentInstances_def start_progress_def Let_def)
  show ?thesis
  proof (cases r)
    case (Inl err)
    with r start show ?thesis
      using assms(2) no_budget_left [of w1] by (auto simp: ends_well_def quiet_def Let_def)
  next
    case (Inr n)
    with r(2) obtain v v' cfg ctx where v: "quiet e 536 (tune_start e m w) v" "source e m cfg ctx"
      "launchConfig ctx e m cfg v = (Inr n, v')" "w1 = close_fallback ctx (record_entry e m (requested_ctx m) cfg n v')"
      by (auto simp: ends_well_def)
    have len: "length (w_contexts v) = length (w_launches v)" using v(1) start by (auto simp: quiet_def)
    note ctx = tune_contexts [OF v(3,2) len, of "requested_ctx m", folded v(4)]
    note l = launchConfig_ok [OF v(3)]
    have "same_sup (w_sup (tune_start e m w)) (w_sup v)" using v(1) by (simp add: quiet_def)
    note ss = same_sup_fields [OF this]
    have "w_contexts (tune_end w1) ! n = EndedCtx \<or>
        w_contexts (tune_end w1) ! n = LoadCtx \<and> (\<exists>t. e_budget e t \<noteq> None) \<and>
        w_launches (tune_end w1) ! n = launch_argv (s_config (w_sup w)) (s_slotsPerInstance (w_sup w)) m
          (fallback_cfg (requested_ctx m))"
      using ctx v(2) l ss by (auto simp: source_def v(4) nth_append)
    moreover have "w_running (tune_end w1) =
        n # foldl (\<lambda>r n. remove1 n r) (w_running w) (processes_of (s_instances (w_sup w)) (w_residents w))"
      "n + 1 = length (w_launches (tune_end w1))"
      using v(1) l assms(2) by (auto simp: quiet_def v(4))
    moreover have "length (w_contexts (tune_end w1)) = length (w_launches (tune_end w1))"
      using v(3) len by (auto simp: v(4) launchConfig_def record_entry_def Let_def split: launch_outcome.splits)
    ultimately show ?thesis using r(1) Inr no_budget_left [of w1] by (simp add: Let_def)
  qed
qed

theorem tune_leaves_no_probe_witness:
  "\<exists>n w'. tune sample_machine sample_model sample_world = Some (Inr n, w') \<and>
     w_running w' = [n] \<and> w_contexts w' ! n = EndedCtx"
proof -
  obtain w' where t: "tune sample_machine sample_model sample_world = Some (Inr 0, w')" using sample_tune by blast
  have "max_offload sample_model \<noteq> 2 ^ 63" "stops_ok sample_machine"
    "length (w_contexts sample_world) = length (w_launches sample_world)" "\<And>k. e_budget sample_machine k = None"
    by (simp_all add: sample_ctx stops_ok_def sample_machine_def sample_world_def)
  with tune_leaves_no_probe [OF this(1-3)] t show ?thesis
    by (auto simp: sample_world_def initial_supervisor_def processes_of_def map_filter_simps)
qed

text \<open>
  C27. A Tuning result is kept and reused: when \<open>tune\<close> succeeds, the entry it stores for the Model
  (and for no other) records exactly the configuration of the process it returns, which is a rung
  of the ladder with an offload within the block count, or the fallback; and the next launch of
  the Model is a cache hit that launches the same command line once more and nothing else.
\<close>

theorem tune_result_is_reused:
  assumes "max_offload m \<noteq> 2 ^ 63" "resolvePin (s_config (w_sup w)) m = NoPin"
    and "tune e m w = Some (Inr n, w')"
  shows "\<exists>cfg entry r w''. candidate m cfg \<and>
    w_launches w' ! n = launch_argv (s_config (w_sup w)) (s_slotsPerInstance (w_sup w)) m cfg \<and>
    s_tuned (w_sup w') = (s_tuned (w_sup w))(m_ID m \<mapsto> entry) \<and>
    te_ResultingCtx entry = CtxLen cfg \<and> te_Offload entry = Offload cfg \<and>
    launchInstance e m w' = Some (Returns r, w'') \<and>
    w_launches w'' = w_launches w' @ [w_launches w' ! n] \<and>
    w_sup w'' = w_sup w' \<and> w_files w'' = w_files w'"
proof -
  from tune_success [OF assms(1,3)] obtain cfg t where c: "candidate m cfg"
    "w_launches w' ! n = launch_argv (s_config (w_sup w)) (s_slotsPerInstance (w_sup w)) m cfg"
    "s_tuned (w_sup w') = (s_tuned (w_sup w))(m_ID m \<mapsto> entry_of e m (requested_ctx m) cfg n t)"
    "s_config (w_sup w') = s_config (w_sup w)"
    "s_slotsPerInstance (w_sup w') = s_slotsPerInstance (w_sup w)" .
  obtain r w'' where l: "launchConfig LoadCtx e m cfg w' = (r, w'')" by fastforce
  then have "launchInstance e m w' = Some (Returns r, w'')"
    using assms(2) c by (simp add: launchInstance_def)
  with c launchConfig_keeps [OF l] show ?thesis
    by (intro exI [of _ cfg] exI [of _ "entry_of e m (requested_ctx m) cfg n t"] exI [of _ r] exI [of _ w''])
       simp
qed

lemma sample_no_pin: "resolvePin (s_config (w_sup sample_world)) sample_model = NoPin"
  by (simp add: sample_world_def initial_supervisor_def resolvePin_def resolveModelConfig_def
      lookupByModelKeys_def)

theorem tune_result_is_reused_witness:
  "\<exists>w' r w''. tune sample_machine sample_model sample_world = Some (Inr 0, w') \<and>
     launchInstance sample_machine sample_model w' = Some (Returns r, w'') \<and>
     w_launches w'' = w_launches w' @ [w_launches w' ! 0]"
proof -
  obtain w' where t: "tune sample_machine sample_model sample_world = Some (Inr 0, w')"
    using sample_tune by blast
  have "max_offload sample_model \<noteq> 2 ^ 63" by (simp add: sample_ctx)
  from tune_result_is_reused [OF this sample_no_pin t] t show ?thesis by blast
qed

text \<open>
  C28. The operator's Pin comes first and is never cached, a valid cache entry comes second, and
  Tuning last. A pinned Model is launched once, with the pinned flags, and a Model with a valid
  entry once, with the entry's flags; both leave the Supervisor's state and the cache file
  untouched. Otherwise the launch is a Tuning run, before which an entry that no longer matches
  the hardware, the file or the requested context is dropped.
\<close>

theorem launchInstance_precedence:
  assumes "max_offload m \<noteq> 2 ^ 63"
  shows "case resolvePin (s_config (w_sup w)) m of
      PinNil \<Rightarrow> launchInstance e m w = Some (Panics, w)
    | Pinned cfg \<Rightarrow>
        (\<exists>r w'. launchInstance e m w = Some (Returns r, w') \<and> w_sup w' = w_sup w \<and> w_files w' = w_files w \<and>
           w_launches w' = w_launches w @ [launch_argv (s_config (w_sup w)) (s_slotsPerInstance (w_sup w)) m cfg])
    | NoPin \<Rightarrow>
        (case s_tuned (w_sup w) (m_ID m) of
           Some entry \<Rightarrow>
             if cache_hit e m entry then
               (\<exists>r w'. launchInstance e m w = Some (Returns r, w') \<and> w_sup w' = w_sup w \<and> w_files w' = w_files w \<and>
                  w_launches w' = w_launches w @ [launch_argv (s_config (w_sup w)) (s_slotsPerInstance (w_sup w)) m
                    \<lparr>CtxLen = te_ResultingCtx entry, Offload = te_Offload entry\<rparr>])
             else
               (\<exists>r w'. tune e m (drop_entry e (m_ID m) w) = Some (r, w') \<and>
                  launchInstance e m w = Some (Returns r, w') \<and>
                  (\<forall>err. r = Inl err \<longrightarrow> s_tuned (w_sup w') = (s_tuned (w_sup w))(m_ID m := None)))
         | None \<Rightarrow> (\<exists>r w'. tune e m w = Some (r, w') \<and> launchInstance e m w = Some (Returns r, w')))"
proof -
  have launch: "\<exists>r w'. (let (r, w) = launchConfig LoadCtx e m cfg w in Some (Returns r, w)) = Some (Returns r, w') \<and>
      w_sup w' = w_sup w \<and> w_files w' = w_files w \<and>
      w_launches w' = w_launches w @ [launch_argv (s_config (w_sup w)) (s_slotsPerInstance (w_sup w)) m cfg]" for cfg
    by (cases "launchConfig LoadCtx e m cfg w") (use launchConfig_keeps [of LoadCtx e m cfg w] in simp)
  have tune: "\<exists>r w'. tune e m w = Some (r, w') \<and>
      (\<forall>err. r = Inl err \<longrightarrow> s_tuned (w_sup w') = s_tuned (w_sup w))" for w
  proof -
    obtain r w1 where "tune e m w = Some (r, tune_end w1)" "ends_well e m 536 (tune_start e m w) r w1"
      using tune_ends [OF assms] by blast
    then show ?thesis by (auto simp: ends_well_def quiet_def same_sup_def)
  qed
  have drop: "s_tuned (w_sup (drop_entry e (m_ID m) w)) = (s_tuned (w_sup w))(m_ID m := None)"
    by (simp add: drop_entry_def Let_def)
  show ?thesis
  proof (cases "resolvePin (s_config (w_sup w)) m")
    case pin: NoPin
    show ?thesis
    proof (cases "s_tuned (w_sup w) (m_ID m)")
      case None
      with pin tune [of w] show ?thesis by (auto simp: launchInstance_def)
    next
      case (Some entry)
      with pin launch tune [of "drop_entry e (m_ID m) w", unfolded drop] show ?thesis
        by (cases "cache_hit e m entry") (auto simp: launchInstance_def)
    qed
  qed (use launch in \<open>auto simp: launchInstance_def\<close>)
qed

theorem launchInstance_precedence_witness:
  "\<exists>r w'. tune sample_machine sample_model sample_world = Some (r, w') \<and>
     launchInstance sample_machine sample_model sample_world = Some (Returns r, w')"
  using launchInstance_precedence [where m = sample_model and w = sample_world and e = sample_machine] sample_no_pin
  by (simp add: sample_ctx sample_world_def initial_supervisor_def)

end
