(* ===== verification/Lifecycle.thy ===== *)
theory Lifecycle
  imports Tuning
begin

text \<open>
  The life of Instances across goroutines: \<open>getOrLaunchInstance\<close>, \<open>evictLRULocked\<close>, \<open>evictByID\<close>,
  \<open>drainAndStop\<close>, \<open>evictAllResidentInstances\<close> and \<open>Close\<close> of
  \<open>src/internal/supervisor/supervisor.go\<close>, running concurrently. The state holds what \<open>s.mu\<close>
  protects, the resident Instances, the loads in progress and the processes; a step is one
  critical section of one goroutine, or something the outside does (a request arrives, a context
  is cancelled, a process exits, a timer fires). How long a launch takes and what comes of it is
  open: Tuning is the one step it is to the rest of the system, with its eviction of all
  Instances, which the reset of Tuning entries does too, a step of its own. Callers of a load whose
  context is cancelled may be counted more than once here, which only cancels more loads.
\<close>

section \<open>State\<close>

record pendingInstance =
  p_ready :: bool
  p_cancelled :: bool
  p_callers :: int
  p_inst :: "nat option"
  p_err :: "go_error option"

text \<open>
  Where a goroutine stands. \<open>Looks\<close> is the head of the loop of \<open>getOrLaunchInstance\<close>;
  \<open>Acquires\<close> and \<open>Sleeps\<close> are in \<open>acquire\<close>, with a flag that tells the path of a resident
  Instance from that of a joined load; \<open>Joins\<close> waits for a load and \<open>Leads\<close> runs it;
  \<open>Launched\<close> has a ready process to publish; \<open>Discards\<close> stops a process that was not published;
  \<open>Serves\<close> holds a Slot; \<open>Borrows\<close> uses a process without one. The drain carries what an eviction
  does after it. \<open>Terminates\<close> stops a process for \<open>Close\<close> or \<open>evictAllResidentInstances\<close>.
\<close>

datatype goroutine =
    Looks string
  | Acquires bool string nat
  | Sleeps bool string nat bool
  | FailedOn string nat
  | Joins string nat
  | Leads string nat
  | Launched string nat nat
  | Discards nat
  | Serves nat
  | Borrows nat
  | TimerFires nat
  | Drains nat "(string \<times> nat) option"
  | DrainAsleep nat bool "(string \<times> nat) option"
  | DrainUnregisters nat "(string \<times> nat) option"
  | DrainStopping nat "(string \<times> nat) option"
  | DrainDone nat
  | EvictWaits string nat
  | CloseWaits nat
  | Terminates nat

record system =
  y_closed :: bool
  y_maxInstances :: int
  y_instances :: "(string \<times> nat) list"
  y_loading :: "(string \<times> nat) list"
  y_pendings :: "nat \<rightharpoonup> pendingInstance"
  y_residents :: "nat \<rightharpoonup> residentInstance"
  y_live :: "nat set"
  y_unstoppable :: "nat set"
  y_next :: nat
  y_threads :: "goroutine multiset"

text \<open>Deleting a key of a Go map.\<close>

definition del :: "string \<Rightarrow> (string \<times> nat) list \<Rightarrow> (string \<times> nat) list" where
  "del i m = filter (\<lambda>(j, _). j \<noteq> i) m"

text \<open>The Instance whose mutex and condition variable a goroutine uses, and its place there.\<close>

fun place_at :: "nat \<Rightarrow> goroutine \<Rightarrow> place option" where
  "place_at n (Sleeps _ _ n' b) = (if n' = n then Some (AcquireSleeps b) else None)"
| "place_at n (Serves n') = (if n' = n then Some InSlot else None)"
| "place_at n (TimerFires n') = (if n' = n then Some TimerFired else None)"
| "place_at n (Drains n' _) = (if n' = n then Some DrainStarts else None)"
| "place_at n (DrainAsleep n' b _) = (if n' = n then Some (DrainSleeps b) else None)"
| "place_at n (DrainUnregisters n' _) = (if n' = n then Some Unregisters else None)"
| "place_at n (DrainStopping n' _) = (if n' = n then Some StopsProcess else None)"
| "place_at n (DrainDone n') = (if n' = n then Some ProcessStopped else None)"
| "place_at n _ = None"

text \<open>\<open>idleCond.Broadcast()\<close> on the Instances of a set.\<close>

fun wake_on :: "nat set \<Rightarrow> goroutine \<Rightarrow> goroutine" where
  "wake_on N (Sleeps r i n b) = Sleeps r i n (b \<or> n \<in> N)"
| "wake_on N (DrainAsleep n b k) = DrainAsleep n (b \<or> n \<in> N) k"
| "wake_on N g = g"

definition broadcast :: "nat set \<Rightarrow> goroutine multiset \<Rightarrow> goroutine multiset" where
  "broadcast N T = image_mset (wake_on N) T"

text \<open>What a goroutine does after a section of \<open>acquire\<close> on a path, and of a drain.\<close>

definition after_acquire_on :: "bool \<Rightarrow> string \<Rightarrow> nat \<Rightarrow> bool \<Rightarrow> acquire_result \<Rightarrow> goroutine multiset" where
  "after_acquire_on r i n cancelled res =
     (case res of
        Returned True \<Rightarrow> {#Serves n#}
      | Waits \<Rightarrow> {#Sleeps r i n False#}
      | Returned False \<Rightarrow> if cancelled then {#} else if r then {#FailedOn i n#} else {#Looks i#})"

definition then_evict :: "(string \<times> nat) option \<Rightarrow> goroutine multiset" where
  "then_evict k = (case k of Some (i, p) \<Rightarrow> {#EvictWaits i p#} | None \<Rightarrow> {#})"

definition after_drain_on :: "nat \<Rightarrow> (string \<times> nat) option \<Rightarrow> drain_result \<Rightarrow> goroutine multiset" where
  "after_drain_on n k res =
     (case res of
        AlreadyStopped \<Rightarrow> then_evict k
      | DrainWaits \<Rightarrow> {#DrainAsleep n False k#}
      | DrainStops \<Rightarrow> {#DrainUnregisters n k#})"

text \<open>
  \<open>evictLRULocked\<close>: the Instance used least recently, the first such in the order of the
  iteration, is unregistered and marked, and a goroutine drains it.
\<close>

definition lastUsed_of :: "(nat \<rightharpoonup> residentInstance) \<Rightarrow> nat \<Rightarrow> time" where
  "lastUsed_of h n = (case h n of Some ri \<Rightarrow> getLastUsed ri | None \<Rightarrow> 0)"

definition lru_scan ::
  "(nat \<rightharpoonup> residentInstance) \<Rightarrow> (string \<times> nat) option \<Rightarrow> string \<times> nat \<Rightarrow> (string \<times> nat) option"
where
  "lru_scan h acc e =
     (case acc of
        None \<Rightarrow> Some e
      | Some v \<Rightarrow> if lastUsed_of h (snd e) < lastUsed_of h (snd v) then Some e else Some v)"

definition lru_victim :: "(nat \<rightharpoonup> residentInstance) \<Rightarrow> (string \<times> nat) list \<Rightarrow> (string \<times> nat) option" where
  "lru_victim h is = foldl (lru_scan h) None is"

definition evictLRULocked :: "system \<Rightarrow> system" where
  "evictLRULocked s =
     (case lru_victim (y_residents s) (y_instances s) of
        None \<Rightarrow> s
      | Some (i, n) \<Rightarrow>
          s\<lparr>y_instances := del i (y_instances s),
            y_residents := (y_residents s)(n := map_option mark_lru_victim (y_residents s n)),
            y_threads := add_mset (Drains n None) (y_threads s)\<rparr>)"

definition make_room :: "system \<Rightarrow> system" where
  "make_room s =
     (if y_maxInstances s > 0 \<and> int (length (y_instances s)) \<ge> y_maxInstances s
      then evictLRULocked s else s)"

section \<open>Sections of getOrLaunchInstance\<close>

text \<open>
  The rest of the first section when no live Instance is resident: join the load in progress or
  start one.
\<close>

definition load_or_join :: "string \<Rightarrow> system \<Rightarrow> system" where
  "load_or_join i s =
     (case map_of (y_loading s) i of
        Some p \<Rightarrow>
          s\<lparr>y_pendings := (y_pendings s)(p := map_option (\<lambda>q. q\<lparr>p_callers := p_callers q + 1\<rparr>) (y_pendings s p)),
            y_threads := add_mset (Joins i p) (y_threads s)\<rparr>
      | None \<Rightarrow>
          (let p = y_next s;
               q = \<lparr>p_ready = False, p_cancelled = False, p_callers = 1, p_inst = None, p_err = None\<rparr>
           in s\<lparr>y_next := p + 1, y_pendings := (y_pendings s)(p \<mapsto> q), y_loading := (i, p) # y_loading s,
                y_threads := add_mset (Leads i p) (y_threads s)\<rparr>))"

text \<open>The monitor of a caller whose context is cancelled.\<close>

definition leave :: "pendingInstance \<Rightarrow> pendingInstance" where
  "leave q = (let c = p_callers q - 1 in q\<lparr>p_callers := c, p_cancelled := p_cancelled q \<or> c = 0\<rparr>)"

definition settle :: "nat option \<Rightarrow> go_error option \<Rightarrow> pendingInstance \<Rightarrow> pendingInstance" where
  "settle inst err q = q\<lparr>p_inst := inst, p_err := err, p_ready := True\<rparr>"

definition on_pending :: "nat \<Rightarrow> (pendingInstance \<Rightarrow> pendingInstance) \<Rightarrow> system \<Rightarrow> system" where
  "on_pending p f s = s\<lparr>y_pendings := (y_pendings s)(p := map_option f (y_pendings s p))\<rparr>"

text \<open>
  The last section of a load, with the process \<open>n\<close> ready: publish it, holding a Slot, or give it
  up. \<open>s\<close> is the state without the goroutine; \<open>ttl\<close> and \<open>slots\<close> are what \<open>resolveTTLLocked\<close> and
  \<open>resolveSlots\<close> give.
\<close>

definition give_up :: "nat \<Rightarrow> nat \<Rightarrow> go_error \<Rightarrow> system \<Rightarrow> system" where
  "give_up p n err s =
     on_pending p (settle None (Some err)) (s\<lparr>y_threads := add_mset (Discards n) (y_threads s)\<rparr>)"

definition publish ::
  "bool \<Rightarrow> bool \<Rightarrow> bool \<Rightarrow> bool \<Rightarrow> bool \<Rightarrow> time \<Rightarrow> duration \<Rightarrow> int \<Rightarrow> string \<Rightarrow> nat \<Rightarrow> nat \<Rightarrow> system \<Rightarrow> system"
where
  "publish c d c' d' cancelled now ttl slots i p n s =
     (let s = s\<lparr>y_loading := del i (y_loading s)\<rparr>
      in if y_closed s then give_up p n (ErrNew ''supervisor is closed'') s
         else
           (let s = make_room s
            in case acquire c d c' d' now (newResidentInstance i n ttl slots now) of
                 (Returned True, ri) \<Rightarrow>
                   on_pending p (settle (Some n) None)
                     (s\<lparr>y_instances := (i, n) # del i (y_instances s), y_residents := (y_residents s)(n \<mapsto> ri),
                        y_threads := add_mset (Serves n) (y_threads s)\<rparr>)
               | _ \<Rightarrow> give_up p n (if cancelled then ErrCanceled
                                   else ErrNew ''instance unavailable after launch'') s))"

text \<open>
  What a caller that joined a load does once it is settled: it returns the error of the load, goes on
  to acquire the registered Instance, or uses a process that is registered no more.
\<close>

datatype join_end = JoinFails go_error | JoinAcquires nat | JoinBorrows nat

definition join_result :: "system \<Rightarrow> string \<Rightarrow> nat \<Rightarrow> join_end option" where
  "join_result s i p =
     Option.bind (y_pendings s p) (\<lambda>q.
       if \<not> p_ready q then None
       else Some
         (case p_err q of
            Some err \<Rightarrow> JoinFails err
          | None \<Rightarrow>
              (case map_of (y_instances s) i of
                 Some n \<Rightarrow> JoinAcquires n
               | None \<Rightarrow>
                   (case p_inst q of
                      Some n \<Rightarrow> JoinBorrows n
                    | None \<Rightarrow> JoinFails (ErrNew ''instance unavailable after load'')))))"

section \<open>Stopping\<close>

text \<open>\<open>stopInstance\<close> on a process, which may fail.\<close>

definition stop_process :: "bool \<Rightarrow> nat \<Rightarrow> system \<Rightarrow> system" where
  "stop_process ok n s =
     (if ok then s\<lparr>y_live := y_live s - {n}\<rparr> else s\<lparr>y_unstoppable := insert n (y_unstoppable s)\<rparr>)"

text \<open>The first section of \<open>Close\<close> and of \<open>evictAllResidentInstances\<close>.\<close>

definition mark_registered :: "system \<Rightarrow> system" where
  "mark_registered s =
     (let is = y_instances s
      in s\<lparr>y_residents := mark_all is (y_residents s), y_instances := [],
           y_threads := broadcast (set (map snd is)) (y_threads s) + mset (map (Terminates \<circ> snd) is)\<rparr>)"

definition close_section :: "system \<Rightarrow> system" where
  "close_section s =
     (let s = mark_registered (s\<lparr>y_closed := True\<rparr>)
      in s\<lparr>y_threads := y_threads s + mset (map (CloseWaits \<circ> snd) (y_loading s))\<rparr>)"

text \<open>The section of \<open>drainAndStop\<close> that unregisters the Instance.\<close>

definition unregister :: "nat \<Rightarrow> system \<Rightarrow> system" where
  "unregister n s =
     (case y_residents s n of
        None \<Rightarrow> s
      | Some ri \<Rightarrow>
          (if map_of (y_instances s) (ri_modelID ri) = Some n
           then s\<lparr>y_instances := del (ri_modelID ri) (y_instances s)\<rparr> else s))"

text \<open>The first section of \<open>evictByID\<close>, and what its goroutine does next.\<close>

definition evict_section :: "string \<Rightarrow> system \<Rightarrow> system" where
  "evict_section i s =
     (let k = map_option (\<lambda>p. (i, p)) (map_of (y_loading s) i);
          next = (case map_of (y_instances s) i of Some n \<Rightarrow> {#Drains n k#} | None \<Rightarrow> then_evict k);
          s = s\<lparr>y_threads := y_threads s + next\<rparr>
      in case k of Some (_, p) \<Rightarrow> on_pending p (\<lambda>q. q\<lparr>p_cancelled := True\<rparr>) s | None \<Rightarrow> s)"

section \<open>Steps\<close>

inductive sys_step :: "system \<Rightarrow> system \<Rightarrow> bool" where
  request: "sys_step s (s\<lparr>y_threads := add_mset (Looks i) (y_threads s)\<rparr>)"
| look_closed:
    "y_threads s = add_mset (Looks i) T \<Longrightarrow> y_closed s \<Longrightarrow> sys_step s (s\<lparr>y_threads := T\<rparr>)"
| look_resident:
    "y_threads s = add_mset (Looks i) T \<Longrightarrow> \<not> y_closed s \<Longrightarrow> map_of (y_instances s) i = Some n \<Longrightarrow>
     n \<in> y_live s \<Longrightarrow> sys_step s (s\<lparr>y_threads := add_mset (Acquires True i n) T\<rparr>)"
| look_exited:
    "y_threads s = add_mset (Looks i) T \<Longrightarrow> \<not> y_closed s \<Longrightarrow> map_of (y_instances s) i = Some n \<Longrightarrow>
     n \<notin> y_live s \<Longrightarrow>
     sys_step s (load_or_join i
       (s\<lparr>y_residents := (y_residents s)(n := map_option stopTimerAndMarkStopped (y_residents s n)),
          y_instances := del i (y_instances s), y_threads := broadcast {n} T\<rparr>))"
| look_absent:
    "y_threads s = add_mset (Looks i) T \<Longrightarrow> \<not> y_closed s \<Longrightarrow> map_of (y_instances s) i = None \<Longrightarrow>
     sys_step s (load_or_join i (s\<lparr>y_threads := T\<rparr>))"
| do_acquire:
    "y_threads s = add_mset (Acquires r i n) T \<Longrightarrow> y_residents s n = Some ri \<Longrightarrow>
     acquire c d c' d' now ri = (res, ri') \<Longrightarrow> (d \<or> d' \<longrightarrow> n \<notin> y_live s) \<Longrightarrow> (c \<or> c' \<longrightarrow> cancelled) \<Longrightarrow>
     sys_step s (s\<lparr>y_residents := (y_residents s)(n \<mapsto> ri'),
       y_threads := T + after_acquire_on r i n cancelled res\<rparr>)"
| acquire_wakes:
    "y_threads s = add_mset (Sleeps r i n True) T \<Longrightarrow> y_residents s n = Some ri \<Longrightarrow>
     acquire_loop c d now ri = (res, ri') \<Longrightarrow> (d \<longrightarrow> n \<notin> y_live s) \<Longrightarrow> (c \<longrightarrow> cancelled) \<Longrightarrow>
     sys_step s (s\<lparr>y_residents := (y_residents s)(n \<mapsto> ri'),
       y_threads := T + after_acquire_on r i n cancelled res\<rparr>)"
| context_done:
    "Sleeps r i n b \<in># y_threads s \<Longrightarrow> sys_step s (s\<lparr>y_threads := broadcast {n} (y_threads s)\<rparr>)"
| acquire_failed:
    "y_threads s = add_mset (FailedOn i n) T \<Longrightarrow>
     sys_step s (s\<lparr>y_instances := (if map_of (y_instances s) i = Some n then del i (y_instances s) else y_instances s),
       y_threads := add_mset (Looks i) T\<rparr>)"
| join_fails:
    "y_threads s = add_mset (Joins i p) T \<Longrightarrow> join_result s i p = Some (JoinFails err) \<Longrightarrow>
     sys_step s (s\<lparr>y_threads := T\<rparr>)"
| join_resident:
    "y_threads s = add_mset (Joins i p) T \<Longrightarrow> join_result s i p = Some (JoinAcquires n) \<Longrightarrow>
     sys_step s (s\<lparr>y_threads := add_mset (Acquires False i n) T\<rparr>)"
| join_absent:
    "y_threads s = add_mset (Joins i p) T \<Longrightarrow> join_result s i p = Some (JoinBorrows n) \<Longrightarrow>
     sys_step s (s\<lparr>y_threads := add_mset (Borrows n) T\<rparr>)"
| join_cancelled:
    "y_threads s = add_mset (Joins i p) T \<Longrightarrow>
     sys_step s (on_pending p (if counted then leave else (\<lambda>q. q)) (s\<lparr>y_threads := T\<rparr>))"
| leader_cancelled:
    "Leads i p \<in># y_threads s \<or> Launched i p n \<in># y_threads s \<Longrightarrow> sys_step s (on_pending p leave s)"
| evicts_all: "sys_step s (mark_registered s)"
| launch_fails:
    "y_threads s = add_mset (Leads i p) T \<Longrightarrow> y_pendings s p = Some q \<Longrightarrow> (is_Canceled err \<longrightarrow> p_cancelled q) \<Longrightarrow>
     sys_step s (on_pending p (settle None (Some err)) (s\<lparr>y_loading := del i (y_loading s), y_threads := T\<rparr>))"
| launch_ready:
    "y_threads s = add_mset (Leads i p) T \<Longrightarrow>
     sys_step s (s\<lparr>y_live := insert (y_next s) (y_live s), y_next := y_next s + 1,
       y_threads := add_mset (Launched i p (y_next s)) T\<rparr>)"
| do_publish:
    "y_threads s = add_mset (Launched i p n) T \<Longrightarrow> (d \<or> d' \<longrightarrow> n \<notin> y_live s) \<Longrightarrow> (c \<or> c' \<longrightarrow> cancelled) \<Longrightarrow>
     sys_step s (publish c d c' d' cancelled now ttl slots i p n (s\<lparr>y_threads := T\<rparr>))"
| discard:
    "y_threads s = add_mset (Discards n) T \<Longrightarrow> sys_step s (stop_process ok n (s\<lparr>y_threads := T\<rparr>))"
| do_release:
    "y_threads s = add_mset (Serves n) T \<Longrightarrow> y_residents s n = Some ri \<Longrightarrow>
     sys_step s (s\<lparr>y_residents := (y_residents s)(n \<mapsto> release now ri), y_threads := broadcast {n} T\<rparr>)"
| borrow_ends:
    "y_threads s = add_mset (Borrows n) T \<Longrightarrow> sys_step s (s\<lparr>y_threads := T\<rparr>)"
| timer_fires:
    "y_residents s n = Some ri \<Longrightarrow> ri_idleTimer ri = Some (Armed t) \<Longrightarrow>
     sys_step s (s\<lparr>y_residents := (y_residents s)(n \<mapsto> fire_timer ri),
       y_threads := add_mset (TimerFires n) (y_threads s)\<rparr>)"
| timeout:
    "y_threads s = add_mset (TimerFires n) T \<Longrightarrow> y_residents s n = Some ri \<Longrightarrow> idle_timeout ri = (go, ri') \<Longrightarrow>
     sys_step s (s\<lparr>y_residents := (y_residents s)(n \<mapsto> ri'),
       y_threads := T + (if go then {#Drains n None#} else {#})\<rparr>)"
| change_ttl:
    "y_residents s n = Some ri \<Longrightarrow> sys_step s (s\<lparr>y_residents := (y_residents s)(n \<mapsto> set_ttl t now ri)\<rparr>)"
| drain_begins:
    "y_threads s = add_mset (Drains n k) T \<Longrightarrow> y_residents s n = Some ri \<Longrightarrow> drain_enter ri = (res, ri') \<Longrightarrow>
     sys_step s (s\<lparr>y_residents := (y_residents s)(n \<mapsto> ri'), y_threads := T + after_drain_on n k res\<rparr>)"
| drain_wakes:
    "y_threads s = add_mset (DrainAsleep n True k) T \<Longrightarrow> y_residents s n = Some ri \<Longrightarrow>
     drain_loop ri = (res, ri') \<Longrightarrow>
     sys_step s (s\<lparr>y_residents := (y_residents s)(n \<mapsto> ri'), y_threads := T + after_drain_on n k res\<rparr>)"
| drain_unregisters:
    "y_threads s = add_mset (DrainUnregisters n k) T \<Longrightarrow>
     sys_step s (unregister n (s\<lparr>y_threads := add_mset (DrainStopping n k) T\<rparr>))"
| drain_stops:
    "y_threads s = add_mset (DrainStopping n k) T \<Longrightarrow>
     sys_step s (stop_process ok n (s\<lparr>y_threads := add_mset (DrainDone n) T + then_evict k\<rparr>))"
| evict: "sys_step s (evict_section i s)"
| evict_settled:
    "y_threads s = add_mset (EvictWaits i p) T \<Longrightarrow> y_pendings s p = Some q \<Longrightarrow> p_ready q \<Longrightarrow>
     sys_step s (s\<lparr>y_threads := T + (case map_of (y_instances s) i of Some n \<Rightarrow> {#Drains n None#} | None \<Rightarrow> {#})\<rparr>)"
| evict_cancelled:
    "y_threads s = add_mset (EvictWaits i p) T \<Longrightarrow> sys_step s (s\<lparr>y_threads := T\<rparr>)"
| close: "sys_step s (close_section s)"
| close_settled:
    "y_threads s = add_mset (CloseWaits p) T \<Longrightarrow> y_pendings s p = Some q \<Longrightarrow> p_ready q \<Longrightarrow>
     sys_step s (s\<lparr>y_threads := T + (case p_inst q of Some n \<Rightarrow> {#Terminates n#} | None \<Rightarrow> {#})\<rparr>)"
| close_times_out:
    "y_threads s = add_mset (CloseWaits p) T \<Longrightarrow> sys_step s (s\<lparr>y_threads := T\<rparr>)"
| terminate:
    "y_threads s = add_mset (Terminates n) T \<Longrightarrow> sys_step s (stop_process ok n (s\<lparr>y_threads := T\<rparr>))"
| process_exits: "sys_step s (s\<lparr>y_live := y_live s - {n}\<rparr>)"
| reorder: "mset is = mset (y_instances s) \<Longrightarrow> sys_step s (s\<lparr>y_instances := is\<rparr>)"

definition sys_init :: "system \<Rightarrow> bool" where
  "sys_init s \<longleftrightarrow>
     \<not> y_closed s \<and> y_instances s = [] \<and> y_loading s = [] \<and> y_pendings s = Map.empty \<and>
     y_residents s = Map.empty \<and> y_live s = {} \<and> y_unstoppable s = {} \<and> y_threads s = {#}"

definition sys_reachable :: "system \<Rightarrow> bool" where
  "sys_reachable s \<longleftrightarrow> (\<exists>s\<^sub>0. sys_init s\<^sub>0 \<and> sys_step\<^sup>*\<^sup>* s\<^sub>0 s)"

section \<open>Lemmas\<close>

lemma set_del: "set (del i m) = {e \<in> set m. fst e \<noteq> i}"
  by (auto simp: del_def)

lemma del_simps [simp]:
  "map_of (del i m) i = None"
  "j \<noteq> i \<Longrightarrow> map_of (del i m) j = map_of m j"
  "distinct (map fst m) \<Longrightarrow> distinct (map fst (del i m))"
  "del i [] = []"
  by (induction m) (auto simp: del_def)

lemma length_del_le: "length (del i m) \<le> length m"
  by (simp add: del_def)

lemma length_del: "e \<in> set m \<Longrightarrow> length (del (fst e) m) < length m"
  unfolding del_def by (rule length_filter_less) auto

lemma modelID_simps [simp]:
  "ri_modelID (stop_timer ri) = ri_modelID ri"
  "ri_modelID (stop_if_active ri) = ri_modelID ri"
  "ri_modelID (stop_if_set ri) = ri_modelID ri"
  "ri_modelID (arm_timer t now ri) = ri_modelID ri"
  "ri_modelID (acquire_grant now ri) = ri_modelID ri"
  "ri_modelID (release now ri) = ri_modelID ri"
  "ri_modelID (stopTimerAndMarkStopped ri) = ri_modelID ri"
  "ri_modelID (fire_timer ri) = ri_modelID ri"
  "ri_modelID (set_ttl t now ri) = ri_modelID ri"
  "ri_modelID (mark_lru_victim ri) = ri_modelID ri"
  by (simp_all add: stop_timer_def stop_if_active_def stop_if_set_def arm_timer_def acquire_grant_def
      release_def stopTimerAndMarkStopped_def fire_timer_def set_ttl_def mark_lru_victim_def Let_def)

lemma modelID_sections:
  "acquire_loop c d now ri = (res, ri') \<Longrightarrow> ri_modelID ri' = ri_modelID ri"
  "acquire c d c' d' now ri = (res, ri') \<Longrightarrow> ri_modelID ri' = ri_modelID ri"
  "drain_loop ri = (dres, ri') \<Longrightarrow> ri_modelID ri' = ri_modelID ri"
  "drain_enter ri = (dres, ri') \<Longrightarrow> ri_modelID ri' = ri_modelID ri"
  "idle_timeout ri = (go, ri') \<Longrightarrow> ri_modelID ri' = ri_modelID ri"
  by (auto simp: acquire_def acquire_loop_def drain_enter_def drain_loop_def idle_timeout_def Let_def
      split: if_splits)

lemma stop_mark_idem [simp]:
  "stopTimerAndMarkStopped (stopTimerAndMarkStopped ri) = stopTimerAndMarkStopped ri"
  by (simp add: stopTimerAndMarkStopped_def stop_if_set_def stop_timer_def option.map_comp comp_def)

lemma mark_all_apply:
  "mark_all is h n = (if n \<in> snd ` set is then map_option stopTimerAndMarkStopped (h n) else h n)"
proof (induction "is" arbitrary: h)
  case (Cons e "is")
  obtain i a where e: "e = (i, a)" by (cases e)
  have m: "map_option stopTimerAndMarkStopped (map_option stopTimerAndMarkStopped x) =
      map_option stopTimerAndMarkStopped x" for x
    by (simp add: option.map_comp comp_def)
  show ?case unfolding e mark_all.simps Cons.IH by (cases "h a") (auto simp: m)
qed simp

lemma lru_victim_in: "lru_victim h is = Some e \<Longrightarrow> e \<in> set is"
proof -
  have "foldl (lru_scan h) acc is = Some e \<Longrightarrow> e \<in> set is \<or> acc = Some e" for acc
    by (induction "is" arbitrary: acc) (force simp: lru_scan_def split: option.splits if_splits)+
  from this [of None] show "lru_victim h is = Some e \<Longrightarrow> e \<in> set is" by (simp add: lru_victim_def)
qed

lemma lru_victim_None: "lru_victim h is = None \<longleftrightarrow> is = []"
proof -
  have f: "foldl (lru_scan h) (Some e) is \<noteq> None" for e "is"
    by (induction "is" arbitrary: e) (auto simp: lru_scan_def)
  show ?thesis
  proof (cases "is")
    case (Cons e es)
    have "lru_scan h None e = Some e" by (simp add: lru_scan_def)
    with Cons f [of e es] show ?thesis by (simp add: lru_victim_def)
  qed (simp add: lru_victim_def)
qed

text \<open>A broadcast changes nothing but who is awake.\<close>

text \<open>The number of goroutines with a property.\<close>

definition num :: "(goroutine \<Rightarrow> bool) \<Rightarrow> goroutine multiset \<Rightarrow> nat" where
  "num P T = size (filter_mset P T)"

lemma num_simps [simp]:
  "num P {#} = 0"
  "num P (add_mset g T) = num P T + (if P g then 1 else 0)"
  "num P (T + U) = num P T + num P U"
  by (simp_all add: num_def)

lemma num_broadcast: "(\<And>g. P (wake_on N g) \<longleftrightarrow> P g) \<Longrightarrow> num P (broadcast N T) = num P T"
  by (induction T) (simp_all add: broadcast_def)

lemma num_pos: "0 < num P T \<longleftrightarrow> (\<exists>g \<in># T. P g)"
  by (auto simp: num_def nonempty_has_size [symmetric])

lemma num_map_0: "(\<And>e. \<not> P (f e)) \<Longrightarrow> num P (image_mset f M) = 0"
  by (induction M) simp_all

section \<open>Invariant\<close>

text \<open>The goroutines that run the load of an ID, that carry a process not yet published, that will
  stop a process, and that will drain an Instance.\<close>

fun leading :: "string \<Rightarrow> goroutine \<Rightarrow> bool" where
  "leading i (Leads j _) \<longleftrightarrow> j = i"
| "leading i (Launched j _ _) \<longleftrightarrow> j = i"
| "leading i _ \<longleftrightarrow> False"

fun launching :: "nat \<Rightarrow> goroutine \<Rightarrow> bool" where
  "launching n (Launched _ _ n') \<longleftrightarrow> n' = n"
| "launching n _ \<longleftrightarrow> False"

fun discarding :: "nat \<Rightarrow> goroutine \<Rightarrow> bool" where
  "discarding n (Discards n') \<longleftrightarrow> n' = n"
| "discarding n _ \<longleftrightarrow> False"

fun stops :: "nat \<Rightarrow> goroutine \<Rightarrow> bool" where
  "stops n (DrainUnregisters n' _) \<longleftrightarrow> n' = n"
| "stops n (DrainStopping n' _) \<longleftrightarrow> n' = n"
| "stops n (Terminates n') \<longleftrightarrow> n' = n"
| "stops n _ \<longleftrightarrow> False"

fun drains :: "nat \<Rightarrow> goroutine \<Rightarrow> bool" where
  "drains n (Drains n' _) \<longleftrightarrow> n' = n"
| "drains n (DrainAsleep n' _ _) \<longleftrightarrow> n' = n"
| "drains n _ \<longleftrightarrow> False"

fun failing :: "string \<Rightarrow> nat \<Rightarrow> goroutine \<Rightarrow> bool" where
  "failing i n (FailedOn i' n') \<longleftrightarrow> i' = i \<and> n' = n"
| "failing i n _ \<longleftrightarrow> False"

definition placed :: "nat \<Rightarrow> goroutine \<Rightarrow> bool" where
  "placed n g \<longleftrightarrow> place_at n g \<noteq> None"

lemma placed_simps [simp]:
  "placed n (Looks i) \<longleftrightarrow> False" "placed n (Acquires r i n') \<longleftrightarrow> False"
  "placed n (Sleeps r i n' b) \<longleftrightarrow> n' = n" "placed n (FailedOn i n') \<longleftrightarrow> False"
  "placed n (Joins i p) \<longleftrightarrow> False" "placed n (Leads i p) \<longleftrightarrow> False" "placed n (Launched i p n') \<longleftrightarrow> False"
  "placed n (Discards n') \<longleftrightarrow> False" "placed n (Serves n') \<longleftrightarrow> n' = n" "placed n (Borrows n') \<longleftrightarrow> False"
  "placed n (TimerFires n') \<longleftrightarrow> n' = n" "placed n (Drains n' k) \<longleftrightarrow> n' = n"
  "placed n (DrainAsleep n' b k) \<longleftrightarrow> n' = n" "placed n (DrainUnregisters n' k) \<longleftrightarrow> n' = n"
  "placed n (DrainStopping n' k) \<longleftrightarrow> n' = n" "placed n (DrainDone n') \<longleftrightarrow> n' = n"
  "placed n (EvictWaits i p) \<longleftrightarrow> False" "placed n (CloseWaits p) \<longleftrightarrow> False" "placed n (Terminates n') \<longleftrightarrow> False"
  by (simp_all add: placed_def)

lemma wake_roles [simp]:
  "leading i (wake_on N g) = leading i g"
  "launching n (wake_on N g) = launching n g"
  "discarding n (wake_on N g) = discarding n g"
  "stops n (wake_on N g) = stops n g"
  "drains n (wake_on N g) = drains n g"
  "failing i n (wake_on N g) = failing i n g"
  "placed n (wake_on N g) = placed n g"
  by (cases g; simp)+

lemma num_roles [simp]:
  "num (leading i) (broadcast N T) = num (leading i) T"
  "num (launching n) (broadcast N T) = num (launching n) T"
  "num (discarding n) (broadcast N T) = num (discarding n) T"
  "num (stops n) (broadcast N T) = num (stops n) T"
  "num (drains n) (broadcast N T) = num (drains n) T"
  "num (failing i n) (broadcast N T) = num (failing i n) T"
  "num (placed n) (broadcast N T) = num (placed n) T"
  by (simp_all add: num_broadcast)

lemma num_after [simp]:
  "num (leading i) (then_evict k) = 0" "num (launching n) (then_evict k) = 0"
  "num (discarding n) (then_evict k) = 0" "num (stops n) (then_evict k) = 0"
  "num (drains n) (then_evict k) = 0" "num (failing i n) (then_evict k) = 0" "num (placed n) (then_evict k) = 0"
  "num (leading i) (after_drain_on m k x) = 0" "num (launching n) (after_drain_on m k x) = 0"
  "num (discarding n) (after_drain_on m k x) = 0" "num (failing i n) (after_drain_on m k x) = 0"
  "num (stops n) (after_drain_on m k x) = (if n = m \<and> x = DrainStops then 1 else 0)"
  "num (drains n) (after_drain_on m k x) = (if n = m \<and> x = DrainWaits then 1 else 0)"
  "num (placed n) (after_drain_on m k x) = (if n = m \<and> x \<noteq> AlreadyStopped then 1 else 0)"
  "num (leading i) (after_acquire_on r j m b y) = 0" "num (launching n) (after_acquire_on r j m b y) = 0"
  "num (discarding n) (after_acquire_on r j m b y) = 0" "num (stops n) (after_acquire_on r j m b y) = 0"
  "num (drains n) (after_acquire_on r j m b y) = 0"
  "num (failing i n) (after_acquire_on r j m b y) =
     (if i = j \<and> n = m \<and> r \<and> \<not> b \<and> y = Returned False then 1 else 0)"
  "num (placed n) (after_acquire_on r j m b y) = (if n = m \<and> y \<noteq> Returned False then 1 else 0)"
  by (auto simp: then_evict_def after_drain_on_def after_acquire_on_def split: option.split drain_result.split
      acquire_result.split bool.split)

lemma num_many [simp]:
  "num (leading i) (image_mset (Terminates \<circ> snd) M) = 0"
  "num (launching n) (image_mset (Terminates \<circ> snd) M) = 0"
  "num (discarding n) (image_mset (Terminates \<circ> snd) M) = 0"
  "num (drains n) (image_mset (Terminates \<circ> snd) M) = 0"
  "num (failing i n) (image_mset (Terminates \<circ> snd) M) = 0"
  "num (placed n) (image_mset (Terminates \<circ> snd) M) = 0"
  "num (leading i) (image_mset (CloseWaits \<circ> snd) M) = 0"
  "num (launching n) (image_mset (CloseWaits \<circ> snd) M) = 0"
  "num (discarding n) (image_mset (CloseWaits \<circ> snd) M) = 0"
  "num (drains n) (image_mset (CloseWaits \<circ> snd) M) = 0"
  "num (stops n) (image_mset (CloseWaits \<circ> snd) M) = 0"
  "num (failing i n) (image_mset (CloseWaits \<circ> snd) M) = 0"
  "num (placed n) (image_mset (CloseWaits \<circ> snd) M) = 0"
  by (rule num_map_0, simp)+

lemma num_terminates: "0 < num (stops n) (image_mset (Terminates \<circ> snd) (mset es)) \<longleftrightarrow> n \<in> snd ` set es"
  by (induction es) auto

text \<open>The parts of the invariant.\<close>

definition inv_registry :: "system \<Rightarrow> bool" where
  "inv_registry s \<longleftrightarrow>
     distinct (map fst (y_instances s)) \<and>
     (\<forall>(i, n) \<in> set (y_instances s). \<exists>ri. y_residents s n = Some ri \<and> ri_modelID ri = i)"

definition inv_fresh :: "system \<Rightarrow> bool" where
  "inv_fresh s \<longleftrightarrow>
     (\<forall>n. y_residents s n \<noteq> None \<longrightarrow> n < y_next s) \<and>
     (\<forall>n \<in> y_live s. n < y_next s) \<and>
     (\<forall>n. 0 < num (launching n) (y_threads s) \<longrightarrow> n < y_next s \<and> y_residents s n = None) \<and>
     (\<forall>n. num (launching n) (y_threads s) \<le> 1) \<and>
     (\<forall>n. 0 < num (placed n) (y_threads s) \<longrightarrow> y_residents s n \<noteq> None)"

definition inv_flight :: "system \<Rightarrow> bool" where
  "inv_flight s \<longleftrightarrow>
     (\<forall>i. num (leading i) (y_threads s) = (if i \<in> fst ` set (y_loading s) then 1 else 0)) \<and>
     (\<forall>i \<in> fst ` set (y_loading s). i \<notin> fst ` set (y_instances s))"

definition inv_cap :: "system \<Rightarrow> bool" where
  "inv_cap s \<longleftrightarrow>
     (y_closed s \<longrightarrow> y_instances s = []) \<and>
     (0 < y_maxInstances s \<longrightarrow> int (length (y_instances s)) \<le> y_maxInstances s)"

definition inv_failed :: "system \<Rightarrow> bool" where
  "inv_failed s \<longleftrightarrow> (\<forall>i n. 0 < num (failing i n) (y_threads s) \<longrightarrow>
     (\<exists>ri. y_residents s n = Some ri \<and> (closing ri \<or> n \<notin> y_live s)))"

text \<open>Every process that runs has an owner.\<close>

definition owned :: "system \<Rightarrow> nat \<Rightarrow> bool" where
  "owned s n \<longleftrightarrow>
     (case y_residents s n of
        None \<Rightarrow> 0 < num (launching n) (y_threads s) + num (discarding n) (y_threads s)
      | Some ri \<Rightarrow>
          if ri_stopped ri then 0 < num (stops n) (y_threads s)
          else if ri_draining ri then 0 < num (drains n) (y_threads s)
          else (ri_modelID ri, n) \<in> set (y_instances s))"

definition inv_owned :: "system \<Rightarrow> bool" where
  "inv_owned s \<longleftrightarrow> (\<forall>n \<in> y_live s - y_unstoppable s. owned s n)"

lemmas section_defs =
  load_or_join_def on_pending_def give_up_def stop_process_def mark_registered_def close_section_def
  unregister_def evict_section_def evictLRULocked_def

lemma load_or_join_keeps [simp]:
  "y_instances (load_or_join i s) = y_instances s"
  "y_residents (load_or_join i s) = y_residents s"
  "y_live (load_or_join i s) = y_live s"
  "y_unstoppable (load_or_join i s) = y_unstoppable s"
  "y_closed (load_or_join i s) = y_closed s"
  "y_maxInstances (load_or_join i s) = y_maxInstances s"
  "y_next (load_or_join i s) = (if map_of (y_loading s) i = None then y_next s + 1 else y_next s)"
  by (simp_all add: load_or_join_def Let_def split: option.split)

lemma on_pending_keeps [simp]:
  "y_instances (on_pending p f s) = y_instances s"
  "y_residents (on_pending p f s) = y_residents s"
  "y_live (on_pending p f s) = y_live s"
  "y_unstoppable (on_pending p f s) = y_unstoppable s"
  "y_closed (on_pending p f s) = y_closed s"
  "y_maxInstances (on_pending p f s) = y_maxInstances s"
  "y_next (on_pending p f s) = y_next s"
  "y_threads (on_pending p f s) = y_threads s"
  "y_loading (on_pending p f s) = y_loading s"
  by (simp_all add: on_pending_def)

lemma stop_process_keeps [simp]:
  "y_instances (stop_process ok n s) = y_instances s"
  "y_residents (stop_process ok n s) = y_residents s"
  "y_closed (stop_process ok n s) = y_closed s"
  "y_maxInstances (stop_process ok n s) = y_maxInstances s"
  "y_next (stop_process ok n s) = y_next s"
  "y_threads (stop_process ok n s) = y_threads s"
  "y_loading (stop_process ok n s) = y_loading s"
  by (simp_all add: stop_process_def)

lemma give_up_keeps [simp]:
  "y_instances (give_up p n err s) = y_instances s"
  "y_residents (give_up p n err s) = y_residents s"
  "y_live (give_up p n err s) = y_live s"
  "y_unstoppable (give_up p n err s) = y_unstoppable s"
  "y_closed (give_up p n err s) = y_closed s"
  "y_maxInstances (give_up p n err s) = y_maxInstances s"
  "y_next (give_up p n err s) = y_next s"
  "y_threads (give_up p n err s) = add_mset (Discards n) (y_threads s)"
  "y_loading (give_up p n err s) = y_loading s"
  by (simp_all add: give_up_def)

lemma evictLRU_keeps [simp]:
  "y_live (evictLRULocked s) = y_live s"
  "y_unstoppable (evictLRULocked s) = y_unstoppable s"
  "y_closed (evictLRULocked s) = y_closed s"
  "y_maxInstances (evictLRULocked s) = y_maxInstances s"
  "y_next (evictLRULocked s) = y_next s"
  "y_loading (evictLRULocked s) = y_loading s"
  by (simp_all add: evictLRULocked_def split: option.split)

lemma evict_section_keeps [simp]:
  "y_instances (evict_section i s) = y_instances s"
  "y_residents (evict_section i s) = y_residents s"
  "y_live (evict_section i s) = y_live s"
  "y_unstoppable (evict_section i s) = y_unstoppable s"
  "y_closed (evict_section i s) = y_closed s"
  "y_maxInstances (evict_section i s) = y_maxInstances s"
  "y_next (evict_section i s) = y_next s"
  "y_loading (evict_section i s) = y_loading s"
  by (simp_all add: evict_section_def Let_def split: option.split)

text \<open>Publishing, by cases: the Supervisor is closed, or \<open>acquire\<close> fails, or it succeeds.\<close>

lemma publish_cases:
  obtains (closed) "y_closed s"
      "publish c d c' d' x now ttl slots i p n s =
       give_up p n (ErrNew ''supervisor is closed'') (s\<lparr>y_loading := del i (y_loading s)\<rparr>)"
  | (fails) err where "\<not> y_closed s"
      "publish c d c' d' x now ttl slots i p n s =
       give_up p n err (make_room (s\<lparr>y_loading := del i (y_loading s)\<rparr>))"
  | (publishes) ri s' where "\<not> y_closed s" "s' = make_room (s\<lparr>y_loading := del i (y_loading s)\<rparr>)"
      "acquire c d c' d' now (newResidentInstance i n ttl slots now) = (Returned True, ri)"
      "publish c d c' d' x now ttl slots i p n s =
       on_pending p (settle (Some n) None)
         (s'\<lparr>y_instances := (i, n) # del i (y_instances s'), y_residents := (y_residents s')(n \<mapsto> ri),
             y_threads := add_mset (Serves n) (y_threads s')\<rparr>)"
proof -
  obtain res ri where a: "acquire c d c' d' now (newResidentInstance i n ttl slots now) = (res, ri)" by fastforce
  show ?thesis
  proof (cases "y_closed s")
    case True
    then show ?thesis by (intro closed) (simp_all add: publish_def Let_def)
  next
    case False
    show ?thesis
    proof (cases "res = Returned True")
      case True
      with False a show ?thesis
        by (intro publishes [OF False refl]) (auto simp: publish_def Let_def)
    next
      case nt: False
      have "publish c d c' d' x now ttl slots i p n s =
          give_up p n (if x then ErrCanceled else ErrNew ''instance unavailable after launch'')
            (make_room (s\<lparr>y_loading := del i (y_loading s)\<rparr>))"
        using False a nt
        by (auto simp: publish_def Let_def split: acquire_result.split bool.split)
      then show ?thesis using fails [OF False] by blast
    qed
  qed
qed

text \<open>Who is in the registry and on the heap after a step.\<close>

lemma make_room_keeps [simp]:
  "y_live (make_room s) = y_live s"
  "y_unstoppable (make_room s) = y_unstoppable s"
  "y_closed (make_room s) = y_closed s"
  "y_maxInstances (make_room s) = y_maxInstances s"
  "y_next (make_room s) = y_next s"
  "y_loading (make_room s) = y_loading s"
  by (simp_all add: make_room_def)

lemma make_room_cases:
  obtains "make_room s = s"
  | i n where "(i, n) \<in> set (y_instances s)"
      "lru_victim (y_residents s) (y_instances s) = Some (i, n)"
      "make_room s = s\<lparr>y_instances := del i (y_instances s),
         y_residents := (y_residents s)(n := map_option mark_lru_victim (y_residents s n)),
         y_threads := add_mset (Drains n None) (y_threads s)\<rparr>"
proof (cases "lru_victim (y_residents s) (y_instances s)")
  case None
  then have "make_room s = s" by (simp add: make_room_def evictLRULocked_def)
  then show ?thesis by (rule that(1))
next
  case (Some e)
  obtain i n where e: "e = (i, n)" by (cases e)
  show ?thesis
  proof (cases "y_maxInstances s > 0 \<and> int (length (y_instances s)) \<ge> y_maxInstances s")
    case True
    with Some e lru_victim_in [OF Some] show ?thesis
      by (intro that(2) [of i n]) (simp_all add: make_room_def evictLRULocked_def)
  next
    case False
    then have "make_room s = s" unfolding make_room_def by (rule if_not_P)
    then show ?thesis by (rule that(1))
  qed
qed

lemma make_room_heap: "(y_residents (make_room s) m = None) = (y_residents s m = None)"
proof (cases s rule: make_room_cases)
  case (2 i n)
  show ?thesis unfolding 2(3) by simp
qed simp

lemma inv_registry_make_room: "inv_registry s \<Longrightarrow> inv_registry (make_room s)"
proof (cases s rule: make_room_cases)
  case (2 i n)
  assume "inv_registry s"
  then show ?thesis
    unfolding 2(3) inv_registry_def by (auto simp: set_del)
qed simp

lemma inv_registry_mark: "inv_registry (mark_registered s)"
  by (simp add: inv_registry_def mark_registered_def Let_def)

lemma inv_registry_update:
  assumes "inv_registry s" "y_residents s n = Some ri" "ri_modelID ri' = ri_modelID ri"
  shows "inv_registry (s\<lparr>y_residents := (y_residents s)(n \<mapsto> ri'), y_threads := T\<rparr>)"
  using assms by (fastforce simp: inv_registry_def)

lemma inv_registry_same:
  assumes "inv_registry s" "y_instances s' = y_instances s" "y_residents s' = y_residents s"
  shows "inv_registry s'"
  using assms by (simp add: inv_registry_def)

lemma inv_registry_publish:
  assumes "inv_registry s" "y_residents s n = None"
  shows "inv_registry (publish c d c' d' x now ttl slots i p n s)"
proof (cases rule: publish_cases [of s c d c' d' x now ttl slots i p n, case_names closed fails publishes])
  case closed
  with assms(1) show ?thesis by (simp add: inv_registry_def)
next
  case (fails err)
  have "inv_registry (make_room (s\<lparr>y_loading := del i (y_loading s)\<rparr>))"
    using assms(1) by (intro inv_registry_make_room) (simp add: inv_registry_def)
  with fails show ?thesis by (simp add: inv_registry_def)
next
  case (publishes ri s')
  note 3 = publishes
  have inv: "inv_registry s'"
    unfolding 3(2) using assms(1) by (intro inv_registry_make_room) (simp add: inv_registry_def)
  have "y_residents s' n = None" using assms(2) by (simp add: 3(2) make_room_heap)
  moreover have "ri_modelID ri = i" using modelID_sections(2) [OF 3(3)] by (simp add: newResidentInstance_def)
  ultimately show ?thesis using inv 3(4) by (fastforce simp: inv_registry_def set_del)
qed

lemma inv_registry_step:
  assumes "sys_step s s'" "inv_registry s" "inv_fresh s"
  shows "inv_registry s'"
  using assms
proof (induction rule: sys_step.induct)
  case (look_exited s i T n)
  then show ?case by (force simp: inv_registry_def set_del)
next
  case (do_publish s i p n T d d' c c' cancelled now ttl slots)
  have "y_residents s n = None" using do_publish by (auto simp: inv_fresh_def)
  then show ?case
    using do_publish by (intro inv_registry_publish) (simp_all add: inv_registry_def)
next
  case (drain_unregisters s n k T)
  then show ?case by (auto simp: inv_registry_def unregister_def set_del split: option.split)
next
  case (reorder "is" s)
  then have "set is = set (y_instances s)" "distinct (map fst is) = distinct (map fst (y_instances s))"
    by (auto dest: mset_eq_setD) (metis mset_eq_imp_distinct_iff mset_map)+
  with reorder show ?case by (simp add: inv_registry_def)
next
  case (close s)
  then show ?case by (simp add: inv_registry_def close_section_def mark_registered_def Let_def)
next
  case (acquire_failed s i n T)
  then show ?case by (auto simp: inv_registry_def set_del)
next
  case (do_acquire s r i n T ri c d c' d' now res ri' cancelled)
  then show ?case using modelID_sections(2) by (intro inv_registry_update) auto
next
  case (acquire_wakes s r i n T ri c d now res ri' cancelled)
  then show ?case using modelID_sections(1) by (intro inv_registry_update) auto
next
  case (timeout s n T ri go ri')
  then show ?case using modelID_sections(5) by (intro inv_registry_update) auto
next
  case (drain_begins s n k T ri res ri')
  then show ?case using modelID_sections(4) by (intro inv_registry_update) auto
next
  case (drain_wakes s n k T ri res ri')
  then show ?case using modelID_sections(3) by (intro inv_registry_update) auto
next
  case (change_ttl s n ri t now)
  then show ?case using inv_registry_update [of s n ri "set_ttl t now ri" "y_threads s"] by simp
next
  case (evicts_all s)
  then show ?case by (simp add: inv_registry_mark)
next
  case (do_release s n T ri now)
  then show ?case by (simp add: inv_registry_update)
next
  case (timer_fires s n ri t)
  then show ?case by (simp add: inv_registry_update)
qed (rule inv_registry_same, assumption, simp, simp)+

lemma unregister_keeps [simp]:
  "y_residents (unregister n s) = y_residents s"
  "y_live (unregister n s) = y_live s"
  "y_unstoppable (unregister n s) = y_unstoppable s"
  "y_closed (unregister n s) = y_closed s"
  "y_maxInstances (unregister n s) = y_maxInstances s"
  "y_next (unregister n s) = y_next s"
  "y_loading (unregister n s) = y_loading s"
  "y_threads (unregister n s) = y_threads s"
  by (simp_all add: unregister_def split: option.split)

lemma load_or_join_num [simp]:
  "num (launching n) (y_threads (load_or_join i s)) = num (launching n) (y_threads s)"
  "num (discarding n) (y_threads (load_or_join i s)) = num (discarding n) (y_threads s)"
  "num (stops n) (y_threads (load_or_join i s)) = num (stops n) (y_threads s)"
  "num (drains n) (y_threads (load_or_join i s)) = num (drains n) (y_threads s)"
  "num (failing j n) (y_threads (load_or_join i s)) = num (failing j n) (y_threads s)"
  "num (placed n) (y_threads (load_or_join i s)) = num (placed n) (y_threads s)"
  "num (leading j) (y_threads (load_or_join i s)) = num (leading j) (y_threads s) +
     (if map_of (y_loading s) i = None \<and> j = i then 1 else 0)"
  by (auto simp: load_or_join_def Let_def split: option.split)

lemma inv_fresh_update:
  assumes "inv_fresh s" "\<And>n. (y_residents s' n = None) = (y_residents s n = None)"
    "y_live s' \<subseteq> y_live s" "y_next s \<le> y_next s'"
    "\<And>n. num (launching n) (y_threads s') \<le> num (launching n) (y_threads s)"
    "\<And>n. 0 < num (placed n) (y_threads s') \<Longrightarrow> y_residents s n \<noteq> None"
  shows "inv_fresh s'"
  unfolding inv_fresh_def
proof (intro conjI allI impI ballI)
  fix n
  note inv = assms(1) [unfolded inv_fresh_def]
  show "n < y_next s'" if "y_residents s' n \<noteq> None"
    using inv assms(2) [of n] assms(4) that by fastforce
  show "n < y_next s'" if "n \<in> y_live s'"
    using inv assms(3,4) that by fastforce
  show "n < y_next s'" if "0 < num (launching n) (y_threads s')"
    using inv assms(4) assms(5) [of n] that by (meson order_less_le_trans)
  show "y_residents s' n = None" if "0 < num (launching n) (y_threads s')"
    using inv assms(2) [of n] assms(5) [of n] that by (meson order_less_le_trans)
  show "num (launching n) (y_threads s') \<le> 1"
    using inv assms(5) [of n] by (meson order_trans)
  show "y_residents s' n \<noteq> None" if "0 < num (placed n) (y_threads s')"
    using assms(2) [of n] assms(6) [OF that] by simp
qed

lemma inv_fresh_make_room:
  assumes "inv_fresh s" "inv_registry s"
  shows "inv_fresh (make_room s)"
proof (cases s rule: make_room_cases)
  case (2 i n)
  have "y_residents s n \<noteq> None" using 2(1) assms(2) by (auto simp: inv_registry_def)
  then show ?thesis
    using assms(1) unfolding 2(3) by (intro inv_fresh_update [OF assms(1)]) (auto simp: inv_fresh_def split: if_splits)
qed (use assms in simp)

lemma inv_fresh_publish:
  assumes "inv_fresh s" "inv_registry s" "y_residents s n = None" "num (launching n) (y_threads s) = 0" "n < y_next s"
  shows "inv_fresh (publish c d c' d' x now ttl slots i p n s)"
proof -
  let ?s = "make_room (s\<lparr>y_loading := del i (y_loading s)\<rparr>)"
  have inv: "inv_fresh ?s"
    using assms(1,2) by (intro inv_fresh_make_room) (simp_all add: inv_fresh_def inv_registry_def)
  have l: "num (launching n) (y_threads ?s) = 0"
    using assms(4) by (cases "s\<lparr>y_loading := del i (y_loading s)\<rparr>" rule: make_room_cases) simp_all
  show ?thesis
  proof (cases rule: publish_cases [of s c d c' d' x now ttl slots i p n, case_names closed fails publishes])
    case closed
    with assms(1) show ?thesis by (simp add: inv_fresh_def)
  next
    case (fails err)
    with inv show ?thesis by (simp add: inv_fresh_def)
  next
    case (publishes ri s')
    then show ?thesis
      using inv l assms(5) unfolding publishes(4) by (auto simp: inv_fresh_def)
  qed
qed

lemma inv_fresh_step:
  assumes "sys_step s s'" "inv_registry s" "inv_fresh s"
  shows "inv_fresh s'"
  using assms
proof (induction rule: sys_step.induct)
  case (do_publish s i p n T d d' c c' cancelled now ttl slots)
  have "num (launching n) T = 0" "y_residents s n = None" "n < y_next s"
    using do_publish(1,5) unfolding inv_fresh_def by (auto dest: spec [of _ n])
  moreover have "inv_fresh (s\<lparr>y_threads := T\<rparr>)"
    using do_publish(1,5) by (intro inv_fresh_update [OF do_publish(5)]) (auto simp: inv_fresh_def)
  moreover have "inv_registry (s\<lparr>y_threads := T\<rparr>)" using do_publish(4) by (simp add: inv_registry_def)
  ultimately show ?case by (intro inv_fresh_publish) simp_all
next
  case (launch_ready s i p T)
  have "y_residents s (y_next s) = None" "num (launching (y_next s)) T = 0"
    using launch_ready unfolding inv_fresh_def by (auto dest: spec [of _ "y_next s"])
  with launch_ready show ?case by (auto simp: inv_fresh_def less_Suc_eq)
next
  case (reorder "is" s)
  then show ?case by (simp add: inv_fresh_def)
next
  case (request s i)
  then show ?case by (simp add: inv_fresh_def)
next
  case (look_closed s i T)
  then show ?case by (simp add: inv_fresh_def)
next
  case (look_exited s i T n)
  then show ?case
    by (intro inv_fresh_update [OF look_exited(6)])
       (auto simp: inv_fresh_def)
next
  case (look_absent s i T)
  then show ?case
    by (intro inv_fresh_update [OF look_absent(5)])
       (auto simp: inv_fresh_def)
next
  case (evicts_all s)
  then show ?case
    by (intro inv_fresh_update [OF evicts_all(2)])
       (auto simp: mark_registered_def Let_def inv_fresh_def mark_all_apply)
next
  case (close s)
  then show ?case
    by (intro inv_fresh_update [OF close(2)])
       (auto simp: close_section_def mark_registered_def Let_def inv_fresh_def mark_all_apply)
next
  case (evict s i)
  then show ?case
    by (intro inv_fresh_update [OF evict(2)])
       (auto simp: evict_section_def Let_def inv_fresh_def inv_registry_def then_evict_def
          dest!: map_of_SomeD split: option.splits if_splits)
next
  case (drain_unregisters s n k T)
  then show ?case
    by (intro inv_fresh_update [OF drain_unregisters(3)])
       (auto simp: inv_fresh_def)
next
  case (do_acquire s r i n T ri c d c' d' now res ri' cancelled)
  then show ?case
    by (intro inv_fresh_update [OF do_acquire(7)]) (auto simp: inv_fresh_def split: if_splits)
next
  case (acquire_wakes s r i n T ri c d now res ri' cancelled)
  then show ?case
    by (intro inv_fresh_update [OF acquire_wakes(7)]) (auto simp: inv_fresh_def split: if_splits)
next
  case (evict_settled s i p T q)
  then show ?case
    by (intro inv_fresh_update [OF evict_settled(5)])
       (auto simp: inv_fresh_def inv_registry_def dest!: map_of_SomeD split: option.splits if_splits)
next
  case (drain_stops s n k T ok)
  then show ?case
    by (intro inv_fresh_update [OF drain_stops(3)])
       (auto simp: inv_fresh_def stop_process_def split: if_splits)
qed ((rule inv_fresh_update, assumption); (auto simp: inv_fresh_def stop_process_def split: option.splits if_splits; fail))+

lemma keys_del: "fst ` set (del i m) = fst ` set m - {i}"
  by (auto simp: set_del)

text \<open>The end of a load: its goroutine was the only one, and its ID not registered.\<close>

lemma flight_lands:
  assumes "inv_flight s" "y_threads s = add_mset g T" "\<And>j. leading j g \<longleftrightarrow> i = j"
  shows "num (leading j) T = (if j \<in> fst ` set (y_loading s) \<and> j \<noteq> i then 1 else 0)"
    and "i \<notin> fst ` set (y_instances s)"
proof -
  have n: "num (leading j) T + (if i = j then 1 else 0) = (if j \<in> fst ` set (y_loading s) then 1 else 0)" for j
    using assms unfolding inv_flight_def by (metis num_simps(2))
  from n [of j] show "num (leading j) T = (if j \<in> fst ` set (y_loading s) \<and> j \<noteq> i then 1 else 0)"
    by (simp split: if_splits)
  from n [of i] have "i \<in> fst ` set (y_loading s)" by (simp split: if_splits)
  with assms(1) show "i \<notin> fst ` set (y_instances s)" unfolding inv_flight_def by blast
qed

lemma make_room_flight:
  "num (leading i) (y_threads (make_room s)) = num (leading i) (y_threads s)"
  "fst ` set (y_instances (make_room s)) \<subseteq> fst ` set (y_instances s)"
proof -
  show "num (leading i) (y_threads (make_room s)) = num (leading i) (y_threads s)"
    by (cases s rule: make_room_cases) simp_all
  show "fst ` set (y_instances (make_room s)) \<subseteq> fst ` set (y_instances s)"
  proof (cases s rule: make_room_cases)
    case (2 i n)
    then show ?thesis by (simp add: keys_del)
  qed simp
qed

lemma inv_flight_step:
  assumes "sys_step s s'" "inv_flight s"
  shows "inv_flight s'"
  using assms
proof (induction rule: sys_step.induct)
  case (look_exited s i T n)
  then show ?case
    by (auto simp: inv_flight_def load_or_join_def Let_def keys_del map_of_eq_None_iff split: option.splits)
next
  case (look_absent s i T)
  then show ?case
    by (auto simp: inv_flight_def load_or_join_def Let_def map_of_eq_None_iff split: option.splits)
next
  case (reorder "is" s)
  then have "set is = set (y_instances s)" by (auto dest: mset_eq_setD)
  with reorder show ?case by (simp add: inv_flight_def)
next
  case (do_publish s i p n T d d' c c' cancelled now ttl slots)
  note land = flight_lands [OF do_publish(4,1), of i, simplified]
  let ?s = "s\<lparr>y_threads := T, y_loading := del i (y_loading s)\<rparr>"
  have inst: "fst ` set (y_instances (make_room ?s)) \<subseteq> fst ` set (y_instances s)"
    using make_room_flight(2) [of ?s] by simp
  have disj: "\<forall>j \<in> fst ` set (y_loading s). j \<notin> fst ` set (y_instances s)"
    using do_publish(4) by (simp add: inv_flight_def)
  have disj': "\<forall>j \<in> fst ` set (y_loading s) - {i}. j \<notin> fst ` set (y_instances (make_room ?s))"
    using disj inst by blast
  show ?case
  proof (cases rule: publish_cases [of "s\<lparr>y_threads := T\<rparr>" c d c' d' cancelled now ttl slots i p n,
        case_names closed fails publishes])
    case closed
    show ?thesis unfolding closed(2) using land disj by (auto simp: inv_flight_def keys_del)
  next
    case (fails err)
    show ?thesis unfolding fails(2) inv_flight_def using land(1) disj'
      by (simp add: keys_del make_room_flight(1))
  next
    case (publishes ri s')
    show ?thesis unfolding publishes(4) publishes(2) inv_flight_def using land(1) disj'
      by (simp add: keys_del make_room_flight(1))
  qed
next
  case (launch_fails s i p T q err)
  note land = flight_lands [OF launch_fails(4,1), of i, simplified]
  show ?case using land launch_fails(4) by (auto simp: inv_flight_def keys_del)
next
  case (evict s i)
  then show ?case
    by (auto simp: inv_flight_def evict_section_def Let_def then_evict_def split: option.splits)
next
  case (drain_unregisters s n k T)
  then show ?case by (auto simp: inv_flight_def unregister_def keys_del split: option.splits)
qed (auto simp: inv_flight_def mark_registered_def close_section_def Let_def keys_del split: option.splits if_splits)

lemma make_room_length:
  assumes "0 < y_maxInstances s" "int (length (y_instances s)) \<le> y_maxInstances s"
  shows "int (length (y_instances (make_room s))) < y_maxInstances s"
proof (cases "int (length (y_instances s)) \<ge> y_maxInstances s")
  case True
  with assms have "y_instances s \<noteq> []" by auto
  then obtain e where e: "lru_victim (y_residents s) (y_instances s) = Some e"
    using lru_victim_None [of "y_residents s" "y_instances s"] by auto
  have "length (del (fst e) (y_instances s)) < length (y_instances s)"
    using length_del [OF lru_victim_in [OF e]] .
  with True assms e show ?thesis
    by (auto simp: make_room_def evictLRULocked_def split: prod.splits)
next
  case False
  then show ?thesis by (simp add: make_room_def)
qed

lemma inv_cap_step:
  assumes "sys_step s s'" "inv_cap s"
  shows "inv_cap s'"
  using assms
proof (induction rule: sys_step.induct)
  case (do_publish s i p n T d d' c c' cancelled now ttl slots)
  let ?s = "s\<lparr>y_threads := T, y_loading := del i (y_loading s)\<rparr>"
  have room: "0 < y_maxInstances s \<Longrightarrow> int (length (y_instances (make_room ?s))) < y_maxInstances s"
    using make_room_length [of ?s] do_publish(4) by (simp add: inv_cap_def)
  have "length (del i (y_instances (make_room ?s))) \<le> length (y_instances (make_room ?s))"
    by (rule length_del_le)
  with room show ?case
    using do_publish(4)
    by (cases rule: publish_cases [of "s\<lparr>y_threads := T\<rparr>" c d c' d' cancelled now ttl slots i p n])
       (force simp: inv_cap_def)+
next
  case (reorder "is" s)
  then have "length is = length (y_instances s)" by (metis size_mset)
  with reorder show ?case by (auto simp: inv_cap_def)
next
  case (look_exited s i T n)
  then show ?case using length_del_le [of i "y_instances s"] by (auto simp: inv_cap_def)
next
  case (acquire_failed s i n T)
  then show ?case using length_del_le [of i "y_instances s"] by (auto simp: inv_cap_def)
next
  case (drain_unregisters s n k T)
  then show ?case
    using length_del_le [of _ "y_instances s"]
    by (auto simp: inv_cap_def unregister_def split: option.splits)
       (metis (no_types, lifting) length_del_le of_nat_mono order_trans)
qed (auto simp: inv_cap_def mark_registered_def close_section_def Let_def)

text \<open>The heap only grows, and an Instance never returns from closing.\<close>

definition evolves :: "residentInstance \<Rightarrow> residentInstance \<Rightarrow> bool" where
  "evolves ri ri' \<longleftrightarrow>
     ri_modelID ri' = ri_modelID ri \<and> (ri_stopped ri \<longrightarrow> ri_stopped ri') \<and> (closing ri \<longrightarrow> closing ri')"

lemma evolves_sections:
  "evolves ri ri" "evolves ri (release now ri)" "evolves ri (stopTimerAndMarkStopped ri)"
  "evolves ri (fire_timer ri)" "evolves ri (set_ttl t now ri)" "evolves ri (mark_lru_victim ri)"
  "acquire_loop c d now ri = (res, ri') \<Longrightarrow> evolves ri ri'"
  "acquire c d c' d' now ri = (res, ri') \<Longrightarrow> evolves ri ri'"
  "drain_loop ri = (dres, ri') \<Longrightarrow> evolves ri ri'"
  "drain_enter ri = (dres, ri') \<Longrightarrow> evolves ri ri'"
  "idle_timeout ri = (go, ri') \<Longrightarrow> evolves ri ri'"
  by (auto simp: evolves_def closing_def acquire_def acquire_loop_def unavailable_def drain_enter_def
      drain_loop_def idle_timeout_def Let_def split: if_splits)

lemma make_room_evolves:
  "y_residents s m = Some ri \<Longrightarrow> \<exists>ri'. y_residents (make_room s) m = Some ri' \<and> evolves ri ri'"
proof (cases s rule: make_room_cases)
  case (2 i n)
  assume "y_residents s m = Some ri"
  then show ?thesis unfolding 2(3) by (auto simp: evolves_sections)
qed (auto simp: evolves_sections)

lemma heap_step:
  assumes "sys_step s s'" "inv_fresh s" "y_residents s m = Some ri"
  shows "\<exists>ri'. y_residents s' m = Some ri' \<and> evolves ri ri'"
  using assms
proof (induction rule: sys_step.induct)
  case (do_publish s i p n T d d' c c' cancelled now ttl slots)
  have "y_residents s n = None" using do_publish(1,4) by (auto simp: inv_fresh_def)
  with do_publish(5) have "m \<noteq> n" by auto
  have "\<exists>ri'. y_residents (make_room (s\<lparr>y_threads := T, y_loading := del i (y_loading s)\<rparr>)) m = Some ri' \<and> evolves ri ri'"
    using do_publish(5) by (intro make_room_evolves) simp
  with \<open>m \<noteq> n\<close> do_publish(5) show ?case
    by (cases rule: publish_cases [of "s\<lparr>y_threads := T\<rparr>" c d c' d' cancelled now ttl slots i p n])
       (auto simp: evolves_sections)
next
  case (drain_begins s n k T r res ri')
  then show ?case using evolves_sections(1,10) by auto
next
  case (drain_wakes s n k T r res ri')
  then show ?case using evolves_sections(1,9) by auto
next
  case (do_acquire s r i n T rj c d c' d' now res ri' cancelled)
  then show ?case using evolves_sections(1,8) by auto
next
  case (acquire_wakes s r i n T rj c d now res ri' cancelled)
  then show ?case using evolves_sections(1,7) by auto
next
  case (timeout s n T r go ri')
  then show ?case using evolves_sections(1,11) by auto
qed (auto simp: evolves_sections mark_registered_def close_section_def Let_def mark_all_apply)

text \<open>Processes are numbered upwards, so one that is gone does not come back.\<close>

lemma live_step:
  assumes "sys_step s s'" "m \<notin> y_live s" "m < y_next s"
  shows "m \<notin> y_live s'"
  using assms
proof (induction rule: sys_step.induct)
  case (do_publish s i p n T d d' c c' cancelled now ttl slots)
  then show ?case
    by (cases rule: publish_cases [of "s\<lparr>y_threads := T\<rparr>" c d c' d' cancelled now ttl slots i p n]) auto
qed (auto simp: mark_registered_def close_section_def stop_process_def Let_def)

text \<open>A goroutine past the wait of a drain has marked its Instance.\<close>

fun past_drain :: "nat \<Rightarrow> goroutine \<Rightarrow> bool" where
  "past_drain n (DrainUnregisters n' _) \<longleftrightarrow> n' = n"
| "past_drain n (DrainStopping n' _) \<longleftrightarrow> n' = n"
| "past_drain n _ \<longleftrightarrow> False"

lemma past_drain_roles [simp]:
  "past_drain n (wake_on N g) = past_drain n g"
  "num (past_drain n) (broadcast N T) = num (past_drain n) T"
  "num (past_drain n) (then_evict k) = 0"
  "num (past_drain n) (after_drain_on m k x) = (if n = m \<and> x = DrainStops then 1 else 0)"
  "num (past_drain n) (after_acquire_on r j m b y) = 0"
  "num (past_drain n) (image_mset (Terminates \<circ> snd) M) = 0"
  "num (past_drain n) (image_mset (CloseWaits \<circ> snd) M) = 0"
  "num (past_drain n) (y_threads (load_or_join i s)) = num (past_drain n) (y_threads s)"
proof -
  show w: "past_drain n (wake_on N g) = past_drain n g" for g by (cases g) simp_all
  show "num (past_drain n) (broadcast N T) = num (past_drain n) T" by (simp add: num_broadcast w)
  show "num (past_drain n) (image_mset (Terminates \<circ> snd) M) = 0"
    "num (past_drain n) (image_mset (CloseWaits \<circ> snd) M) = 0"
    by (rule num_map_0, simp)+
qed (auto simp: then_evict_def after_drain_on_def after_acquire_on_def load_or_join_def Let_def
    split: option.split drain_result.split acquire_result.split bool.split)

definition inv_past :: "system \<Rightarrow> bool" where
  "inv_past s \<longleftrightarrow> (\<forall>n. 0 < num (past_drain n) (y_threads s) \<longrightarrow>
     (\<exists>ri. y_residents s n = Some ri \<and> ri_stopped ri))"

text \<open>To keep a property of goroutines about Instances that only grows, look at the new ones.\<close>

lemma inv_past_step:
  assumes "sys_step s s'" "inv_fresh s" "inv_past s"
  shows "inv_past s'"
  unfolding inv_past_def
proof (intro allI impI)
  fix m
  assume p: "0 < num (past_drain m) (y_threads s')"
  have "0 < num (past_drain m) (y_threads s) \<or> (\<exists>ri. y_residents s' m = Some ri \<and> ri_stopped ri)"
    using assms(1) p
  proof (induction rule: sys_step.induct)
    case (do_publish s i p n T d d' c c' cancelled now ttl slots)
    have "num (past_drain m) (y_threads (make_room s)) = num (past_drain m) (y_threads s)" for s
      by (cases s rule: make_room_cases) simp_all
    with do_publish show ?case
      by (cases rule: publish_cases [of "s\<lparr>y_threads := T\<rparr>" c d c' d' cancelled now ttl slots i p n]) simp_all
  next
    case (drain_begins s n k T ri res ri')
    then show ?case
      by (cases rule: drain_enter_loop [OF drain_begins(3)])
         (auto simp: drain_loop_def split: if_splits)
  next
    case (drain_wakes s n k T ri res ri')
    then show ?case by (auto simp: drain_loop_def split: if_splits)
  qed (auto simp: mark_registered_def close_section_def evict_section_def Let_def then_evict_def
      split: option.splits if_splits)
  then show "\<exists>ri. y_residents s' m = Some ri \<and> ri_stopped ri"
    using assms(3) heap_step [OF assms(1,2)] unfolding inv_past_def evolves_def by blast
qed

lemma acquire_unavailable:
  "acquire c d c' d' now ri = (Returned False, ri') \<Longrightarrow> \<not> c \<Longrightarrow> \<not> c' \<Longrightarrow> closing ri' \<or> d \<or> d'"
  "acquire_loop c d now ri = (Returned False, ri') \<Longrightarrow> \<not> c \<Longrightarrow> closing ri' \<or> d"
  by (auto simp: acquire_def acquire_loop_def unavailable_def closing_def split: if_splits)

lemma inv_failed_step:
  assumes "sys_step s s'" "inv_fresh s" "inv_failed s"
  shows "inv_failed s'"
  unfolding inv_failed_def
proof (intro allI impI)
  fix j m
  assume p: "0 < num (failing j m) (y_threads s')"
  have "0 < num (failing j m) (y_threads s) \<or>
      (\<exists>ri. y_residents s' m = Some ri \<and> (closing ri \<or> m \<notin> y_live s'))"
    using assms(1) p
  proof (induction rule: sys_step.induct)
    case (do_publish s i p n T d d' c c' cancelled now ttl slots)
    have "num (failing j m) (y_threads (make_room s)) = num (failing j m) (y_threads s)" for s
      by (cases s rule: make_room_cases) simp_all
    with do_publish show ?case
      by (cases rule: publish_cases [of "s\<lparr>y_threads := T\<rparr>" c d c' d' cancelled now ttl slots i p n]) simp_all
  next
    case (do_acquire s r i n T ri c d c' d' now res ri' cancelled)
    then show ?case using acquire_unavailable(1) [of c d c' d' now ri ri'] by (auto split: if_splits)
  next
    case (acquire_wakes s r i n T ri c d now res ri' cancelled)
    then show ?case using acquire_unavailable(2) [of c d now ri ri'] by (auto split: if_splits)
  qed (auto simp: mark_registered_def close_section_def evict_section_def Let_def then_evict_def
      split: option.splits if_splits)
  then show "\<exists>ri. y_residents s' m = Some ri \<and> (closing ri \<or> m \<notin> y_live s')"
  proof
    assume "0 < num (failing j m) (y_threads s)"
    then obtain ri where ri: "y_residents s m = Some ri" "closing ri \<or> m \<notin> y_live s"
      using assms(3) unfolding inv_failed_def by blast
    moreover have "m < y_next s" using assms(2) ri(1) unfolding inv_fresh_def by blast
    ultimately show ?thesis
      using heap_step [OF assms(1,2) ri(1)] live_step [OF assms(1)] unfolding evolves_def by blast
  qed
qed

text \<open>Sections that leave the two flags alone, and steps that leave the ownership alone.\<close>

definition same_flags :: "residentInstance \<Rightarrow> residentInstance \<Rightarrow> bool" where
  "same_flags ri ri' \<longleftrightarrow>
     ri_modelID ri' = ri_modelID ri \<and> ri_stopped ri' = ri_stopped ri \<and> ri_draining ri' = ri_draining ri"

lemma same_flags_sections:
  "same_flags ri ri" "same_flags ri (release now ri)" "same_flags ri (fire_timer ri)"
  "same_flags ri (set_ttl t now ri)"
  "acquire_loop c d now ri = (res, ri') \<Longrightarrow> same_flags ri ri'"
  "acquire c d c' d' now ri = (res, ri') \<Longrightarrow> same_flags ri ri'"
  "idle_timeout ri = (go, ri') \<Longrightarrow> same_flags ri ri'"
  by (auto simp: same_flags_def acquire_def acquire_loop_def unavailable_def idle_timeout_def split: if_splits)

lemma owned_keep:
  assumes "owned s m" "rel_option same_flags (y_residents s m) (y_residents s' m)"
    "num (launching m) (y_threads s) + num (discarding m) (y_threads s) \<le>
     num (launching m) (y_threads s') + num (discarding m) (y_threads s')"
    "num (stops m) (y_threads s) \<le> num (stops m) (y_threads s')"
    "num (drains m) (y_threads s) \<le> num (drains m) (y_threads s')"
    "\<And>i ri. y_residents s m = Some ri \<Longrightarrow> \<not> closing ri \<Longrightarrow> (i, m) \<in> set (y_instances s) \<Longrightarrow>
       (i, m) \<in> set (y_instances s')"
  shows "owned s' m"
proof (cases "y_residents s m")
  case None
  with assms show ?thesis by (auto simp: owned_def rel_option_iff split: option.splits)
next
  case (Some ri)
  with assms(2) obtain ri' where "y_residents s' m = Some ri'" "same_flags ri ri'"
    by (auto simp: rel_option_iff split: option.splits)
  with assms Some show ?thesis
    by (auto simp: owned_def same_flags_def closing_def split: if_splits)
qed

lemma rel_same [simp]: "rel_option same_flags x x"
  by (cases x) (simp_all add: same_flags_sections)

text \<open>Deleting an ID drops at most the Instance registered under it.\<close>

lemma del_keeps:
  assumes "inv_registry s" "(i, n) \<in> set (y_instances s)" "(j, m) \<in> set (y_instances s)" "m \<noteq> n"
  shows "(j, m) \<in> set (del i (y_instances s))"
proof -
  have "distinct (map fst (y_instances s))" using assms(1) by (simp add: inv_registry_def)
  then have "j \<noteq> i" using assms(2-4) by (metis eq_key_imp_eq_value)
  with assms(3) show ?thesis by (simp add: set_del)
qed

lemma owned_make_room:
  assumes "inv_registry s" "owned s m"
  shows "owned (make_room s) m"
proof (cases s rule: make_room_cases)
  case (2 i n)
  show ?thesis
  proof (cases "m = n")
    case True
    then obtain ri where "y_residents s n = Some ri"
      using 2(1) assms(1) by (auto simp: inv_registry_def)
    with assms(2) True show ?thesis unfolding 2(3) by (auto simp: owned_def split: if_splits)
  next
    case False
    then show ?thesis
      unfolding 2(3) using del_keeps [OF assms(1) 2(1)]
      by (intro owned_keep [OF assms(2)]) auto
  qed
qed (use assms(2) in simp)

lemma owned_drain:
  assumes "owned s n" "y_residents s n = Some ri" "drain_loop ri1 = (res, ri')"
    "ri_stopped ri1 = ri_stopped ri" "ri_modelID ri1 = ri_modelID ri"
    "ri_draining ri \<longrightarrow> ri_draining ri1"
    "y_residents s' n = Some ri'" "y_instances s' = y_instances s"
    "num (stops n) (y_threads s') = num (stops n) (y_threads s) + (if res = DrainStops then 1 else 0)"
    "0 < num (drains n) (y_threads s') \<or> res \<noteq> DrainWaits"
  shows "owned s' n"
  using assms(3)
proof (cases rule: drain_loop_cases)
  case 1
  with assms show ?thesis by (simp add: owned_def)
next
  case 2
  with assms show ?thesis by (auto simp: owned_def split: if_splits)
next
  case 3
  with assms show ?thesis by (simp add: owned_def)
qed

lemma owned_publish:
  assumes "inv_registry s" "inv_fresh s" "y_threads s = add_mset (Launched i p n) T"
    "i \<notin> fst ` set (y_instances s)" "owned s m"
  shows "owned (publish c d c' d' x now ttl slots i p n (s\<lparr>y_threads := T\<rparr>)) m"
proof -
  have n: "y_residents s n = None" using assms(2,3) by (auto simp: inv_fresh_def)
  let ?u = "s\<lparr>y_loading := del i (y_loading s)\<rparr>"
  let ?v = "s\<lparr>y_threads := T, y_loading := del i (y_loading s)\<rparr>"
  have v: "make_room ?v = (make_room ?u)\<lparr>y_threads := y_threads (make_room ?u) - {#Launched i p n#}\<rparr>"
    using assms(3) by (simp add: make_room_def evictLRULocked_def split: option.splits)
  have L: "Launched i p n \<in># y_threads (make_room ?u)"
    using assms(3) by (simp add: make_room_def evictLRULocked_def split: option.splits)
  then obtain U where U: "y_threads (make_room ?u) = add_mset (Launched i p n) U" by (metis mset_add)
  have "owned ?u m" by (rule owned_keep [OF assms(5)]) simp_all
  then have own: "owned (make_room ?u) m" using assms(1) by (intro owned_make_room) (simp_all add: inv_registry_def)
  have "fst ` set (y_instances (make_room ?u)) \<subseteq> fst ` set (y_instances s)"
    using make_room_flight(2) [of ?u] by simp
  then have "fst e \<noteq> i" if "e \<in> set (y_instances (make_room ?u))" for e using assms(4) that by blast
  then have del: "set (del i (y_instances (make_room ?u))) = set (y_instances (make_room ?u))"
    by (auto simp: set_del)
  have heap: "y_residents (make_room ?u) n = None" using n by (simp add: make_room_heap)
  show ?thesis
  proof (cases rule: publish_cases [of "s\<lparr>y_threads := T\<rparr>" c d c' d' x now ttl slots i p n,
        case_names closed fails publishes])
    case closed
    show ?thesis unfolding closed(2) using assms(3) by (intro owned_keep [OF assms(5)]) auto
  next
    case (fails err)
    show ?thesis unfolding fails(2) using U by (intro owned_keep [OF own]) (auto simp: v)
  next
    case (publishes ri s')
    have s': "s' = (make_room ?u)\<lparr>y_threads := U\<rparr>" unfolding publishes(2) using U v by simp
    show ?thesis
    proof (cases "m = n")
      case True
      have "ri_modelID ri = i" "\<not> ri_stopped ri" "\<not> ri_draining ri"
        using same_flags_sections(6) [OF publishes(3)] by (simp_all add: same_flags_def newResidentInstance_def)
      with True show ?thesis unfolding publishes(4) by (simp add: owned_def)
    next
      case False
      then show ?thesis
        unfolding publishes(4) s' using U del by (intro owned_keep [OF own]) auto
    qed
  qed
qed

lemma owned_mark:
  assumes "inv_registry s" "owned s m"
  shows "owned (mark_registered s) m"
proof (cases "m \<in> snd ` set (y_instances s)")
  case True
  then obtain ri where "y_residents s m = Some ri" using assms(1) by (auto simp: inv_registry_def)
  with True show ?thesis
    using num_terminates [of m "y_instances s"]
    by (simp add: owned_def mark_registered_def Let_def mark_all_apply)
next
  case False
  then have "(i, m) \<notin> set (y_instances s)" for i by force
  with False show ?thesis
    by (intro owned_keep [OF assms(2)]) (auto simp: mark_registered_def Let_def mark_all_apply)
qed

lemma inv_owned_step:
  assumes "sys_step s s'" "inv_registry s" "inv_fresh s" "inv_flight s" "inv_failed s" "inv_past s" "inv_owned s"
  shows "inv_owned s'"
  unfolding inv_owned_def
proof
  fix m
  assume m: "m \<in> y_live s' - y_unstoppable s'"
  have own: "owned s m" if "m \<in> y_live s" "m \<notin> y_unstoppable s" using assms(7) that by (simp add: inv_owned_def)
  show "owned s' m"
    using assms(1-6) m own
  proof (induction rule: sys_step.induct)
    case (do_publish s i p n T d d' c c' cancelled now ttl slots)
    have "m \<in> y_live s" "m \<notin> y_unstoppable s"
      using do_publish(9)
      by (cases rule: publish_cases [of "s\<lparr>y_threads := T\<rparr>" c d c' d' cancelled now ttl slots i p n]; simp)+
    moreover have "i \<notin> fst ` set (y_instances s)"
      using flight_lands(2) [OF do_publish(6,1), of i] by simp
    ultimately show ?case
      by (intro owned_publish [OF do_publish(4,5,1)] do_publish(10))
  next
    case (launch_ready s i p T)
    show ?case
    proof (cases "m = y_next s")
      case True
      then have "y_residents s m = None" using launch_ready(3) by (auto simp: inv_fresh_def)
      with True show ?thesis by (simp add: owned_def)
    next
      case False
      with launch_ready have "owned s m" by simp
      then show ?thesis by (rule owned_keep) (simp_all add: launch_ready(1))
    qed
  next
    case (evicts_all s)
    then show ?case by (intro owned_mark) (simp_all add: mark_registered_def Let_def)
  next
    case (close s)
    then have "owned s m" by (simp add: close_section_def mark_registered_def Let_def)
    then have "owned (s\<lparr>y_closed := True\<rparr>) m" by (rule owned_keep) simp_all
    then have "owned (mark_registered (s\<lparr>y_closed := True\<rparr>)) m"
      using close(1) by (intro owned_mark) (simp_all add: inv_registry_def)
    then show ?case by (rule owned_keep) (simp_all add: close_section_def Let_def)
  next
    case (look_exited s i T n)
    then have "m \<noteq> n" "(i, n) \<in> set (y_instances s)" by (auto dest: map_of_SomeD)
    moreover from this have "owned s m" using look_exited by simp
    ultimately show ?case
      using del_keeps [OF look_exited(5), of i n _ m] by (elim owned_keep) (simp_all add: look_exited(1))
  next
    case (acquire_failed s i n T)
    have "closing ri" if "y_residents s n = Some ri" "m = n" for ri
      using acquire_failed(1,5,7) that unfolding inv_failed_def by (auto dest!: spec [of _ i] spec [of _ n])
    moreover have "owned s m" using acquire_failed by simp
    ultimately show ?case
      using del_keeps [OF acquire_failed(2), of i n _ m]
      by (elim owned_keep) (auto simp: acquire_failed(1) dest!: map_of_SomeD)
  next
    case (drain_unregisters s n k T)
    obtain ri where ri: "y_residents s n = Some ri" "ri_stopped ri"
      using drain_unregisters(1,6) unfolding inv_past_def by (auto dest!: spec [of _ n])
    then have "owned s m \<Longrightarrow> owned (unregister n (s\<lparr>y_threads := add_mset (DrainStopping n k) T\<rparr>)) m"
      using drain_unregisters(1) del_keeps [OF drain_unregisters(2), of "ri_modelID ri" n _ m]
      by (elim owned_keep; cases "m = n") (auto simp: unregister_def closing_def same_flags_sections dest!: map_of_SomeD)
    then show ?case using drain_unregisters by simp
  next
    case (drain_begins s n k T ri res ri')
    show ?case
    proof (cases "m = n")
      case True
      show ?thesis
      proof (cases rule: drain_enter_loop [OF drain_begins(3)])
        case 1
        then show ?thesis using drain_begins True by (simp add: owned_def)
      next
        case (2 ri1)
        have id: "ri_modelID ri1 = ri_modelID ri"
          using modelID_sections(3) [OF 2(1)] modelID_sections(4) [OF drain_begins(3)] by simp
        have "owned s n" using drain_begins True by simp
        from owned_drain [OF this drain_begins(2) 2(1) 2(4) id 2(5)] show ?thesis
          unfolding True by (simp add: drain_begins(1))
      qed
    next
      case False
      moreover have "owned s m" using drain_begins by simp
      ultimately show ?thesis by (elim owned_keep) (simp_all add: drain_begins(1))
    qed
  next
    case (drain_wakes s n k T ri res ri')
    have own: "owned s m" using drain_wakes by simp
    show ?case
    proof (cases "m = n")
      case True
      from owned_drain [OF own [unfolded True] drain_wakes(2,3) refl refl] show ?thesis
        unfolding True by (simp add: drain_wakes(1))
    next
      case False
      then show ?thesis using own by (elim owned_keep) (simp_all add: drain_wakes(1))
    qed
  next
    case (reorder "is" s)
    have "set is = set (y_instances s)" using reorder(1) by (rule mset_eq_setD)
    moreover have "owned s m" using reorder by simp
    ultimately show ?case by (elim owned_keep) simp_all
  next
    case (do_acquire s r i n T ri c d c' d' now res ri' cancelled)
    then have "owned s m" by simp
    then show ?case
      by (rule owned_keep) (simp_all add: do_acquire(1,2) same_flags_sections(6) [OF do_acquire(3)])
  next
    case (acquire_wakes s r i n T ri c d now res ri' cancelled)
    then have "owned s m" by simp
    then show ?case
      by (rule owned_keep) (simp_all add: acquire_wakes(1,2) same_flags_sections(5) [OF acquire_wakes(3)])
  next
    case (timeout s n T ri go ri')
    then have "owned s m" by simp
    then show ?case
      by (rule owned_keep) (simp_all add: timeout(1,2) same_flags_sections(7) [OF timeout(3)])
  next
    case (discard s n T ok)
    then have "owned s m" "m \<noteq> n" by (auto simp: stop_process_def split: if_splits)
    then show ?case by (elim owned_keep) (simp_all add: discard(1))
  next
    case (terminate s n T ok)
    then have "owned s m" "m \<noteq> n" by (auto simp: stop_process_def split: if_splits)
    then show ?case by (elim owned_keep) (simp_all add: terminate(1))
  next
    case (drain_stops s n k T ok)
    then have "owned s m" "m \<noteq> n" by (auto simp: stop_process_def split: if_splits)
    then show ?case by (elim owned_keep) (simp_all add: drain_stops(1))
  next
    case (evict s i)
    then have "owned s m" by simp
    then show ?case by (rule owned_keep) (simp_all add: evict_section_def Let_def split: option.split)
  qed (rule owned_keep; simp add: same_flags_sections split: option.split)+
qed

section \<open>Refinement of the life of one Instance\<close>

text \<open>What the goroutines are to one Instance: the places of those that use its mutex.\<close>

definition proj :: "nat \<Rightarrow> goroutine multiset \<Rightarrow> place multiset" where
  "proj n T = image_mset (\<lambda>g. the (place_at n g)) (filter_mset (placed n) T)"

lemma proj_simps [simp]:
  "proj n {#} = {#}"
  "proj n (add_mset g T) = (case place_at n g of None \<Rightarrow> proj n T | Some p \<Rightarrow> add_mset p (proj n T))"
  "proj n (T + U) = proj n T + proj n U"
  by (auto simp: proj_def placed_def split: option.split)

lemma proj_broadcast [simp]:
  "proj n (broadcast N T) = (if n \<in> N then image_mset wake (proj n T) else proj n T)"
proof (induction T)
  case (add g T)
  have "place_at n (wake_on N g) = (if n \<in> N then map_option wake (place_at n g) else place_at n g)"
    by (cases g) auto
  with add show ?case by (auto simp: broadcast_def split: option.split)
qed (simp add: broadcast_def)

lemma proj_after [simp]:
  "proj n (after_acquire_on r i m b x) = (if m = n then after_acquire x else {#})"
  "proj n (then_evict k) = {#}"
  "proj n (after_drain_on m k y) = (if m = n then after_drain y else {#})"
  by (auto simp: after_acquire_on_def after_acquire_def then_evict_def after_drain_on_def after_drain_def
      split: option.split drain_result.split acquire_result.split bool.split)

lemma proj_many [simp]:
  "proj n (image_mset (Terminates \<circ> snd) M) = {#}"
  "proj n (image_mset (CloseWaits \<circ> snd) M) = {#}"
  "proj n (y_threads (load_or_join i s)) = proj n (y_threads s)"
  by (induction M) (auto simp: load_or_join_def Let_def split: option.split)

lemma proj_none: "num (placed n) T = 0 \<Longrightarrow> proj n T = {#}"
  by (simp add: num_def proj_def)

text \<open>A step of the system is a step of an Instance or does not touch it.\<close>

definition inst_of :: "system \<Rightarrow> nat \<Rightarrow> inst_state option" where
  "inst_of s n = map_option (\<lambda>ri. (ri, proj n (y_threads s))) (y_residents s n)"

definition sim :: "inst_state option \<Rightarrow> inst_state option \<Rightarrow> bool" where
  "sim x y \<longleftrightarrow> x = y \<or> (\<exists>a b. x = Some a \<and> y = Some b \<and> inst_step a b) \<or> (\<exists>b. x = None \<and> y = Some b \<and> inst_init b)"

lemma sim_refl [simp]: "sim x x"
  by (simp add: sim_def)

lemma sim_step: "x = Some a \<Longrightarrow> y = Some b \<Longrightarrow> inst_step a b \<Longrightarrow> sim x y"
  by (simp add: sim_def)

lemma inst_of_same:
  "y_residents s' n = y_residents s n \<Longrightarrow> proj n (y_threads s') = proj n (y_threads s) \<Longrightarrow> inst_of s' n = inst_of s n"
  by (simp add: inst_of_def)

lemma sim_same: "inst_of s' n = inst_of s n \<Longrightarrow> sim (inst_of s n) (inst_of s' n)"
  by (simp add: sim_def)

lemma sim_make_room: "sim (inst_of s m) (inst_of (make_room s) m)"
proof (cases s rule: make_room_cases)
  case (2 i n)
  show ?thesis
    unfolding 2(3) inst_of_def
    by (cases "y_residents s m") (auto simp: sim_def intro: inst_step.step_lru_victim)
qed simp

lemma sim_mark: "sim (inst_of s m) (inst_of (mark_registered s) m)"
  unfolding inst_of_def
  by (cases "y_residents s m")
     (auto simp: mark_registered_def Let_def mark_all_apply sim_def intro: inst_step.step_mark_stopped)

lemma sim_publish:
  assumes "y_threads s = add_mset (Launched i p n) T" "inv_fresh s" "inv_registry s"
  shows "sim (inst_of s m) (inst_of (publish c d c' d' x now ttl slots i p n (s\<lparr>y_threads := T\<rparr>)) m)"
proof -
  let ?s = "s\<lparr>y_threads := T, y_loading := del i (y_loading s)\<rparr>"
  have same: "inst_of ?s m = inst_of s m" using assms(1) by (intro inst_of_same) simp_all
  have n: "y_residents s n = None" using assms(1,2) by (auto simp: inv_fresh_def)
  then have none: "y_residents (make_room ?s) n = None" by (simp add: make_room_heap)
  have "num (placed n) (y_threads s) = 0" using assms(2) n unfolding inv_fresh_def by blast
  then have "proj n T = {#}" using assms(1) by (intro proj_none) simp
  then have new: "proj n (y_threads (make_room ?s)) = {#}"
    by (cases ?s rule: make_room_cases) (use n assms(3) in \<open>auto simp: inv_registry_def\<close>)
  note room = sim_make_room [of ?s m, unfolded same]
  show ?thesis
  proof (cases rule: publish_cases [of "s\<lparr>y_threads := T\<rparr>" c d c' d' x now ttl slots i p n,
        case_names closed fails publishes])
    case closed
    show ?thesis unfolding closed(2) using assms(1) by (intro sim_same inst_of_same) simp_all
  next
    case (fails err)
    have "inst_of (give_up p n err (make_room ?s)) m = inst_of (make_room ?s) m" by (intro inst_of_same) simp_all
    then show ?thesis unfolding fails(2) using room by simp
  next
    case (publishes ri s')
    show ?thesis
    proof (cases "m = n")
      case True
      have "inst_init (ri, {#InSlot#})" using publishes(3) by (rule inst_init.intros)
      then show ?thesis
        unfolding publishes(4) publishes(2) True using new n by (simp add: inst_of_def sim_def)
    next
      case False
      then have "inst_of (on_pending p (settle (Some n) None)
         (s'\<lparr>y_instances := (i, n) # del i (y_instances s'), y_residents := (y_residents s')(n \<mapsto> ri),
             y_threads := add_mset (Serves n) (y_threads s')\<rparr>)) m = inst_of (make_room ?s) m"
        unfolding publishes(2) by (intro inst_of_same) simp_all
      then show ?thesis unfolding publishes(4) using room by simp
    qed
  qed
qed

lemma sys_step_sim:
  assumes "sys_step s s'" "inv_fresh s" "inv_registry s"
  shows "sim (inst_of s m) (inst_of s' m)"
  using assms
proof (induction rule: sys_step.induct)
  case (do_publish s i p n T d d' c c' cancelled now ttl slots)
  then show ?case by (intro sim_publish)
next
  case (evicts_all s)
  show ?case by (rule sim_mark)
next
  case (close s)
  have "inst_of (close_section s) m = inst_of (mark_registered (s\<lparr>y_closed := True\<rparr>)) m"
    "inst_of (s\<lparr>y_closed := True\<rparr>) m = inst_of s m"
    by (intro inst_of_same; simp add: close_section_def Let_def)+
  with sim_mark [of "s\<lparr>y_closed := True\<rparr>" m] show ?case by simp
next
  case (look_exited s i T n)
  then show ?case
    by (cases "y_residents s m") (auto simp: inst_of_def sim_def intro: inst_step.step_mark_stopped)
next
  case (do_acquire s r i n T ri c d c' d' now res ri' cancelled)
  then show ?case by (auto simp: inst_of_def sim_def intro: inst_step.step_acquire)
next
  case (acquire_wakes s r i n T ri c d now res ri' cancelled)
  then show ?case by (auto simp: inst_of_def sim_def intro: inst_step.step_acquire_wakes)
next
  case (context_done r i n b s)
  have "AcquireSleeps b \<in># proj n (y_threads s)"
    using context_done(1) by (force simp: proj_def dest: multi_member_split)
  then show ?case
    by (cases "y_residents s m") (auto simp: inst_of_def sim_def intro: inst_step.step_ctx_done)
next
  case (do_release s n T ri now)
  then show ?case by (auto simp: inst_of_def sim_def intro: inst_step.step_release)
next
  case (timer_fires s n ri t)
  then show ?case by (auto simp: inst_of_def sim_def intro: inst_step.step_timer_fires)
next
  case (timeout s n T ri go ri')
  then show ?case
    using inst_step.step_timeout [OF timeout(3), of "proj m T"] by (auto simp: inst_of_def sim_def)
next
  case (change_ttl s n ri t now)
  then show ?case by (auto simp: inst_of_def sim_def intro: inst_step.step_set_ttl)
next
  case (drain_begins s n k T ri res ri')
  then show ?case by (auto simp: inst_of_def sim_def intro: inst_step.step_drain_enter)
next
  case (drain_wakes s n k T ri res ri')
  then show ?case by (auto simp: inst_of_def sim_def intro: inst_step.step_drain_wakes)
next
  case (drain_unregisters s n k T)
  then show ?case
    by (cases "y_residents s m") (auto simp: inst_of_def sim_def intro: inst_step.step_unregister)
next
  case (drain_stops s n k T ok)
  then show ?case
    by (cases "y_residents s m") (auto simp: inst_of_def sim_def intro: inst_step.step_stop_process)
next
  case (evict s i)
  then show ?case
    by (cases "y_residents s m")
       (auto simp: inst_of_def sim_def evict_section_def Let_def split: option.split intro: inst_step.step_drain_call)
next
  case (evict_settled s i p T q)
  then show ?case
    by (cases "y_residents s m")
       (auto simp: inst_of_def sim_def split: option.split intro: inst_step.step_drain_call)
qed (intro sim_same inst_of_same; simp split: option.split)+

section \<open>Reachable states\<close>

definition inv_instances :: "system \<Rightarrow> bool" where
  "inv_instances s \<longleftrightarrow> (\<forall>n x. inst_of s n = Some x \<longrightarrow> inst_reachable x)"

lemma inv_instances_step:
  assumes "sys_step s s'" "inv_fresh s" "inv_registry s" "inv_instances s"
  shows "inv_instances s'"
  unfolding inv_instances_def
proof (intro allI impI)
  fix n x
  assume "inst_of s' n = Some x"
  with sys_step_sim [OF assms(1-3), of n] consider "inst_of s n = Some x"
    | a where "inst_of s n = Some a" "inst_step a x" | "inst_init x"
    by (auto simp: sim_def)
  then show "inst_reachable x"
  proof cases
    case 3
    then show ?thesis unfolding inst_reachable_def by blast
  qed (use assms(4) reachable_step in \<open>unfold inv_instances_def, blast+\<close>)
qed

definition sys_inv :: "system \<Rightarrow> bool" where
  "sys_inv s \<longleftrightarrow> inv_registry s \<and> inv_fresh s \<and> inv_flight s \<and> inv_cap s \<and> inv_failed s \<and> inv_past s \<and>
     inv_owned s \<and> inv_instances s"

lemmas inv_defs = inv_registry_def inv_fresh_def inv_flight_def inv_cap_def inv_failed_def inv_past_def
  inv_owned_def inv_instances_def

interpretation sys: step_invariant sys_init sys_step sys_inv
proof
  fix s
  assume "sys_init s"
  then show "sys_inv s" by (simp add: sys_init_def sys_inv_def inv_defs inst_of_def)
next
  fix s s'
  assume "sys_inv s" "sys_step s s'"
  then show "sys_inv s'"
    unfolding sys_inv_def
    using inv_registry_step inv_fresh_step inv_flight_step inv_cap_step inv_failed_step inv_past_step
      inv_owned_step inv_instances_step by metis
qed

lemma sys_reachable_inv: "sys_reachable s \<Longrightarrow> sys_inv s"
  unfolding sys_reachable_def using sys.inv_reachable by blast

lemma sys_reachable_step: "sys_reachable s \<Longrightarrow> sys_step s s' \<Longrightarrow> sys_reachable s'"
  unfolding sys_reachable_def by (meson rtranclp.rtrancl_into_rtrancl)

text \<open>The goroutines that will publish, discard, drain or stop a process.\<close>

fun minds :: "nat \<Rightarrow> goroutine \<Rightarrow> bool" where
  "minds n (Launched _ _ n') \<longleftrightarrow> n' = n"
| "minds n (Discards n') \<longleftrightarrow> n' = n"
| "minds n (Drains n' _) \<longleftrightarrow> n' = n"
| "minds n (DrainAsleep n' _ _) \<longleftrightarrow> n' = n"
| "minds n (DrainUnregisters n' _) \<longleftrightarrow> n' = n"
| "minds n (DrainStopping n' _) \<longleftrightarrow> n' = n"
| "minds n (Terminates n') \<longleftrightarrow> n' = n"
| "minds n _ \<longleftrightarrow> False"

lemma owned_minds: "owned s n \<Longrightarrow> n \<in> snd ` set (y_instances s) \<or> (\<exists>g \<in># y_threads s. minds n g)"
proof -
  have m: "launching n g \<Longrightarrow> minds n g" "discarding n g \<Longrightarrow> minds n g" "stops n g \<Longrightarrow> minds n g"
    "drains n g \<Longrightarrow> minds n g" for g
    by (cases g; simp)+
  assume "owned s n"
  then show ?thesis
    by (force simp: owned_def num_pos dest: m split: option.splits if_splits)
qed

lemma count_Serves: "count (proj n T) InSlot = count T (Serves n)"
proof (induction T)
  case (add g T)
  then show ?case by (cases g) auto
qed simp

text \<open>
  A run, for examples: two callers ask for an absent model, the first leads the load and the
  second joins it, and the process \<open>1\<close> is ready to be published.
\<close>

definition idle :: system where
  "idle = \<lparr>y_closed = False, y_maxInstances = 1, y_instances = [], y_loading = [], y_pendings = Map.empty,
     y_residents = Map.empty, y_live = {}, y_unstoppable = {}, y_next = 0, y_threads = {#}\<rparr>"

definition flight :: system where
  "flight = idle\<lparr>y_loading := [(''tiny'', 0)], y_next := 2, y_live := {1},
     y_pendings := [0 \<mapsto> \<lparr>p_ready = False, p_cancelled = False, p_callers = 2, p_inst = None, p_err = None\<rparr>],
     y_threads := {#Launched ''tiny'' 0 1, Joins ''tiny'' 0#}\<rparr>"

lemma flight_reachable: "sys_reachable flight"
proof -
  let ?i = "''tiny''"
  have 0: "sys_reachable idle" unfolding sys_reachable_def by (rule exI [of _ idle]) (simp add: sys_init_def idle_def)
  have 1: "sys_reachable (idle\<lparr>y_threads := {#Looks ?i, Looks ?i#}\<rparr>)"
    using sys_reachable_step [OF sys_reachable_step [OF 0 request [of _ ?i]] request [of _ ?i]]
    by (simp add: idle_def)
  have 2: "sys_reachable (load_or_join ?i (idle\<lparr>y_threads := {#Looks ?i#}\<rparr>))"
    using sys_reachable_step [OF 1 look_absent [of _ ?i "{#Looks ?i#}"]] by (simp add: idle_def)
  have 3: "sys_reachable (load_or_join ?i ((load_or_join ?i (idle\<lparr>y_threads := {#Looks ?i#}\<rparr>))
      \<lparr>y_threads := {#Leads ?i 0#}\<rparr>))"
    by (rule sys_reachable_step [OF 2 look_absent [of _ ?i "{#Leads ?i 0#}"]])
       (simp_all add: idle_def load_or_join_def Let_def add_mset_commute)
  show ?thesis
    by (rule sys_reachable_step [OF 3])
       (use launch_ready [of "load_or_join ?i ((load_or_join ?i (idle\<lparr>y_threads := {#Looks ?i#}\<rparr>))
          \<lparr>y_threads := {#Leads ?i 0#}\<rparr>)" ?i 0 "{#Joins ?i 0#}"] in
        \<open>simp add: idle_def flight_def load_or_join_def Let_def add_mset_commute numeral_2_eq_2\<close>)
qed

text \<open>The load is published.\<close>

definition serving :: system where
  "serving = flight\<lparr>y_loading := [], y_instances := [(''tiny'', 1)],
     y_pendings := [0 \<mapsto> \<lparr>p_ready = True, p_cancelled = False, p_callers = 2, p_inst = Some 1, p_err = None\<rparr>],
     y_residents := [1 \<mapsto> acquire_grant 5 (newResidentInstance ''tiny'' 1 10 1 5)],
     y_threads := {#Serves 1, Joins ''tiny'' 0#}\<rparr>"

lemma serving_reachable: "sys_reachable serving"
  using sys_reachable_step [OF flight_reachable
      do_publish [of flight "''tiny''" 0 1 "{#Joins ''tiny'' 0#}" False False False False False 5 10 1]]
  by (simp add: flight_def idle_def serving_def publish_def make_room_def run_defs del_def on_pending_def
      settle_def)

lemma lru_victim_oldest:
  assumes "lru_victim h is = Some v" "e \<in> set is"
  shows "lastUsed_of h (snd v) \<le> lastUsed_of h (snd e)"
proof -
  have "foldl (lru_scan h) acc is = Some v \<Longrightarrow> e \<in> set is \<or> acc = Some e \<Longrightarrow>
      lastUsed_of h (snd v) \<le> lastUsed_of h (snd e)" for acc e
  proof (induction "is" arbitrary: acc e)
    case (Cons x xs)
    obtain w where w: "lru_scan h acc x = Some w" "lastUsed_of h (snd w) \<le> lastUsed_of h (snd x)"
      "\<forall>u. acc = Some u \<longrightarrow> lastUsed_of h (snd w) \<le> lastUsed_of h (snd u)"
    proof (cases acc)
      case None
      then show ?thesis using that [of x] by (simp add: lru_scan_def)
    next
      case (Some u)
      then show ?thesis
        using that [of x] that [of u]
        by (cases "lastUsed_of h (snd x) < lastUsed_of h (snd u)") (auto simp: lru_scan_def)
    qed
    have f: "foldl (lru_scan h) (Some w) xs = Some v" using Cons.prems(1) w(1) by simp
    have "lastUsed_of h (snd v) \<le> lastUsed_of h (snd w)" using Cons.IH [OF f] by blast
    moreover have "e \<in> set xs \<Longrightarrow> lastUsed_of h (snd v) \<le> lastUsed_of h (snd e)" using Cons.IH [OF f] by blast
    ultimately show ?case using Cons.prems(2) w(2,3) by (elim disjE) (simp, fastforce, fastforce)
  qed simp
  from this [of None e] assms show ?thesis by (simp add: lru_victim_def)
qed

section \<open>Properties\<close>

text \<open>
  C2. No ghost process: in every state the Supervisor can reach, whatever the interleaving of
  requests, loads, evictions, timers and \<open>Close\<close>, a process that runs and that no failed stop has
  given up on is registered, or a goroutine holds it that will publish, drain or stop it. After
  \<open>Close\<close> nothing is registered, so once those goroutines are through no process is left.
\<close>

theorem no_ghost_process:
  assumes "sys_reachable s" "n \<in> y_live s" "n \<notin> y_unstoppable s"
  shows "(\<exists>i. (i, n) \<in> set (y_instances s) \<and> \<not> y_closed s) \<or> (\<exists>g \<in># y_threads s. minds n g)"
proof -
  have inv: "sys_inv s" using assms(1) by (rule sys_reachable_inv)
  then have "owned s n" using assms(2,3) by (simp add: sys_inv_def inv_owned_def)
  then have "n \<in> snd ` set (y_instances s) \<or> (\<exists>g \<in># y_threads s. minds n g)" by (rule owned_minds)
  with inv show ?thesis by (force simp: sys_inv_def inv_cap_def)
qed

theorem no_ghost_process_witness: "1 \<in> y_live flight \<and> (\<exists>g \<in># y_threads flight. minds 1 g)"
  using no_ghost_process [OF flight_reachable, of 1] by (simp add: flight_def idle_def)

text \<open>
  C7. Single flight: for each ID there is at most one load in progress or registered Instance,
  never both and never two. Concurrent requests for an absent model start one process.
\<close>

theorem single_flight:
  assumes "sys_reachable s"
  shows "num (leading i) (y_threads s) + count (mset (map fst (y_instances s))) i \<le> 1"
proof -
  have inv: "inv_flight s" "distinct (map fst (y_instances s))"
    using sys_reachable_inv [OF assms] by (simp_all add: sys_inv_def inv_registry_def)
  then have "count (mset (map fst (y_instances s))) i = (if i \<in> fst ` set (y_instances s) then 1 else 0)"
    by (simp add: distinct_count_atmost_1)
  with inv(1) show ?thesis by (auto simp: inv_flight_def)
qed

theorem single_flight_witness:
  "num (leading ''tiny'') (y_threads flight) = 1 \<and> count (mset (map fst (y_instances flight))) ''tiny'' = 0"
  using single_flight [OF flight_reachable, of "''tiny''"] by (simp add: flight_def idle_def)

text \<open>
  C15. The cap: with a positive \<open>maxInstances\<close>, never more Instances than that are registered,
  and once the Supervisor is closed none is.
\<close>

theorem instance_cap:
  assumes "sys_reachable s"
  shows "(0 < y_maxInstances s \<longrightarrow> int (length (y_instances s)) \<le> y_maxInstances s) \<and>
    (y_closed s \<longrightarrow> y_instances s = [])"
  using sys_reachable_inv [OF assms] by (simp add: sys_inv_def inv_cap_def)

theorem instance_cap_witness: "length (y_instances serving) = 1 \<and> int (length (y_instances serving)) \<le> 1"
  using instance_cap [OF serving_reachable] by (simp add: serving_def flight_def idle_def)

text \<open>
  C10. Refinement: to each Instance, a step of the whole system is a step of the Instance on its
  own or leaves it as it is, and an Instance enters the system only in its initial state. So the
  system refines, Instance by Instance, the machine of one Instance.
\<close>

theorem system_refines_instances:
  assumes "sys_reachable s" "sys_step s s'"
  shows "case (inst_of s n, inst_of s' n) of
      (None, None) \<Rightarrow> True
    | (None, Some b) \<Rightarrow> inst_init b
    | (Some a, Some b) \<Rightarrow> a = b \<or> inst_step a b
    | (Some a, None) \<Rightarrow> False"
proof -
  have "sim (inst_of s n) (inst_of s' n)"
    using sys_step_sim [OF assms(2)] sys_reachable_inv [OF assms(1)] by (simp add: sys_inv_def)
  then show ?thesis by (auto simp: sim_def split: option.splits)
qed

theorem system_refines_instances_witness:
  "inst_step (acquire_grant 5 (newResidentInstance ''tiny'' 1 10 1 5), {#InSlot#})
     (release 9 (acquire_grant 5 (newResidentInstance ''tiny'' 1 10 1 5)), {#})"
proof -
  let ?ri = "acquire_grant 5 (newResidentInstance ''tiny'' 1 10 1 5)"
  have "sys_step serving (serving\<lparr>y_residents := (y_residents serving)(1 \<mapsto> release 9 ?ri),
      y_threads := broadcast {1} {#Joins ''tiny'' 0#}\<rparr>)"
    by (rule do_release) (simp_all add: serving_def)
  from system_refines_instances [OF serving_reachable this, of 1] show ?thesis
    by (auto simp: inst_of_def serving_def run_defs)
qed

text \<open>
  C16. Slots across the system: the requests that hold a Slot of an Instance are its active
  count, within its Slot count; and while a drain stops the process of an Instance, no request
  holds a Slot of it.
\<close>

theorem system_slots:
  assumes "sys_reachable s" "y_residents s n = Some ri"
  shows "int (count (y_threads s) (Serves n)) = ri_activeCount ri \<and> ri_activeCount ri \<le> ri_maxSlots ri \<and>
    (\<forall>g \<in># y_threads s. past_drain n g \<longrightarrow> ri_stopped ri \<and> Serves n \<notin># y_threads s)"
proof -
  have "inst_reachable (ri, proj n (y_threads s))"
    using sys_reachable_inv [OF assms(1)] assms(2) by (simp add: sys_inv_def inv_instances_def inst_of_def)
  then have ok: "inst_ok (ri, proj n (y_threads s))" by (rule inst_reachable_ok)
  have "ri_stopped ri \<and> Serves n \<notin># y_threads s" if "g \<in># y_threads s" "past_drain n g" for g
  proof -
    have "0 < stopping (proj n (y_threads s))"
      using that by (cases g) (auto simp: stopping_def dest!: multi_member_split)
    then have "ri_stopped ri" "ri_activeCount ri = 0" using ok by (auto simp: inst_ok.simps)
    then show ?thesis using ok by (simp add: inst_ok.simps count_Serves not_in_iff)
  qed
  with ok show ?thesis by (simp add: inst_ok.simps count_Serves)
qed

theorem system_slots_witness:
  "\<exists>ri. y_residents serving 1 = Some ri \<and> ri_activeCount ri = 1 \<and> count (y_threads serving) (Serves 1) = 1"
  using system_slots [OF serving_reachable, of 1] by (simp add: serving_def run_defs)

text \<open>
  C17. The eviction for the cap takes an Instance used least recently among those registered,
  whichever order the map is iterated in: it is unregistered, marked draining so that no request
  can enter it, and a goroutine drains it. The other Instances are left alone.
\<close>

theorem evictLRU_takes_oldest:
  assumes "sys_reachable s" "y_instances s \<noteq> []"
  shows "\<exists>i n ri. (i, n) \<in> set (y_instances s) \<and>
    (\<forall>(j, m) \<in> set (y_instances s). lastUsed_of (y_residents s) n \<le> lastUsed_of (y_residents s) m) \<and>
    y_residents (evictLRULocked s) n = Some ri \<and> ri_draining ri \<and>
    y_instances (evictLRULocked s) = del i (y_instances s) \<and>
    y_threads (evictLRULocked s) = add_mset (Drains n None) (y_threads s) \<and>
    (\<forall>m. m \<noteq> n \<longrightarrow> y_residents (evictLRULocked s) m = y_residents s m)"
proof -
  obtain i n where v: "lru_victim (y_residents s) (y_instances s) = Some (i, n)"
    using assms(2) lru_victim_None [of "y_residents s" "y_instances s"] by auto
  have "(i, n) \<in> set (y_instances s)" using lru_victim_in [OF v] .
  moreover from this obtain ri where "y_residents s n = Some ri"
    using sys_reachable_inv [OF assms(1)] by (auto simp: sys_inv_def inv_registry_def)
  moreover have "\<forall>(j, m) \<in> set (y_instances s). lastUsed_of (y_residents s) n \<le> lastUsed_of (y_residents s) m"
    using lru_victim_oldest [OF v] by fastforce
  ultimately show ?thesis
    by (intro exI [of _ i] exI [of _ n] exI [of _ "mark_lru_victim ri"])
       (simp add: evictLRULocked_def v mark_lru_victim_def)
qed

theorem evictLRU_takes_oldest_witness: "y_instances (evictLRULocked serving) = []"
  using evictLRU_takes_oldest [OF serving_reachable] by (auto simp: serving_def flight_def idle_def del_def)

text \<open>
  C36. A load is lost when its leader goes. In any state in which a process is ready to be published
  and another caller waits for it, with a live process and the Supervisor open, the outcome depends on
  the context of the request that happened to start the load. When that is live, the Instance is
  registered and the waiting caller goes on to acquire it. When it is cancelled, the same process,
  still running, is discarded, nothing is registered for the ID, and the waiting caller returns the
  leader's \<open>context canceled\<close>, although the load itself is no more cancelled than before.
\<close>

theorem leader_cancel_fails_joiners:
  assumes "sys_reachable s" "y_threads s = add_mset (Launched i p n) (add_mset (Joins i p) T)"
    and "y_pendings s p = Some q" "n \<in> y_live s" "\<not> y_closed s"
  shows "(let s' = publish False False False False False now ttl slots i p n (s\<lparr>y_threads := add_mset (Joins i p) T\<rparr>)
      in sys_step s s' \<and> map_of (y_instances s') i = Some n \<and> Serves n \<in># y_threads s' \<and>
         Joins i p \<in># y_threads s' \<and> join_result s' i p = Some (JoinAcquires n)) \<and>
    (let s' = publish True False True False True now ttl slots i p n (s\<lparr>y_threads := add_mset (Joins i p) T\<rparr>)
      in sys_step s s' \<and> map_of (y_instances s') i = None \<and> n \<in> y_live s' \<and> Discards n \<in># y_threads s' \<and>
         Joins i p \<in># y_threads s' \<and> join_result s' i p = Some (JoinFails ErrCanceled) \<and>
         map_option p_cancelled (y_pendings s' p) = Some (p_cancelled q))"
proof -
  let ?s = "s\<lparr>y_threads := add_mset (Joins i p) T\<rparr>"
  let ?r = "make_room (?s\<lparr>y_loading := del i (y_loading s)\<rparr>)"
  let ?live = "publish False False False False False now ttl slots i p n ?s"
  let ?gone = "publish True False True False True now ttl slots i p n ?s"
  obtain ri where live: "acquire False False False False now (newResidentInstance i n ttl slots now) = (Returned True, ri)"
    by (cases "slots \<le> 0") (simp_all add: acquire_def acquire_loop_def unavailable_def newResidentInstance_def)
  have gone: "acquire True False True False now (newResidentInstance i n ttl slots now) =
      (Returned False, newResidentInstance i n ttl slots now)"
    by (simp add: acquire_def unavailable_def)
  have flight: "inv_flight s" using sys_reachable_inv [OF assms(1)] by (simp add: sys_inv_def)
  have "num (leading i) (y_threads s) \<noteq> 0" by (simp add: assms(2))
  then have "i \<notin> fst ` set (y_instances s)" using flight by (auto simp: inv_flight_def split: if_splits)
  then have "i \<notin> fst ` set (y_instances ?r)" using make_room_flight(2) [of "?s\<lparr>y_loading := del i (y_loading s)\<rparr>"] by auto
  then have absent: "map_of (y_instances ?r) i = None" by (simp add: map_of_eq_None_iff)
  have room: "y_pendings ?r = y_pendings s" "Joins i p \<in># y_threads ?r"
    by (cases "?s\<lparr>y_loading := del i (y_loading s)\<rparr>" rule: make_room_cases; simp)+
  have l: "?live = on_pending p (settle (Some n) None) (?r\<lparr>y_instances := (i, n) # del i (y_instances ?r),
      y_residents := (y_residents ?r)(n \<mapsto> ri), y_threads := add_mset (Serves n) (y_threads ?r)\<rparr>)"
    using assms(5) by (simp add: publish_def Let_def live)
  have g: "?gone = give_up p n ErrCanceled ?r" using assms(5) by (simp add: publish_def Let_def gone)
  have steps: "sys_step s ?live" "sys_step s ?gone" by (intro do_publish assms(2); simp)+
  have "map_of (y_instances ?live) i = Some n" "Serves n \<in># y_threads ?live" "Joins i p \<in># y_threads ?live"
    "join_result ?live i p = Some (JoinAcquires n)"
    unfolding l using room assms(3) by (simp_all add: join_result_def on_pending_def settle_def)
  moreover have "map_of (y_instances ?gone) i = None" "n \<in> y_live ?gone" "Discards n \<in># y_threads ?gone"
    "Joins i p \<in># y_threads ?gone" "join_result ?gone i p = Some (JoinFails ErrCanceled)"
    "map_option p_cancelled (y_pendings ?gone p) = Some (p_cancelled q)"
    unfolding g using room assms(3,4) absent by (simp_all add: join_result_def on_pending_def settle_def give_up_def)
  ultimately show ?thesis using steps unfolding Let_def by (intro conjI)
qed

theorem leader_cancel_fails_joiners_witness:
  "\<exists>s'. sys_step flight s' \<and> 1 \<in> y_live s' \<and> Discards 1 \<in># y_threads s' \<and>
     join_result s' ''tiny'' 0 = Some (JoinFails ErrCanceled) \<and> map_option p_cancelled (y_pendings s' 0) = Some False"
proof -
  let ?q = "\<lparr>p_ready = False, p_cancelled = False, p_callers = 2, p_inst = None, p_err = None\<rparr>"
  have f: "y_threads flight = add_mset (Launched ''tiny'' 0 1) (add_mset (Joins ''tiny'' 0) {#})" "y_pendings flight 0 = Some ?q"
    "1 \<in> y_live flight" "\<not> y_closed flight"
    by (simp_all add: flight_def idle_def)
  note c = conjunct2 [OF leader_cancel_fails_joiners [OF flight_reachable f, of 5 10 1], unfolded Let_def]
  show ?thesis
    by (rule exI, intro conjI, rule conjunct1 [OF c])
       (rule conjunct1 [OF c [THEN conjunct2, THEN conjunct2]]
         conjunct1 [OF c [THEN conjunct2, THEN conjunct2, THEN conjunct2]]
         conjunct1 [OF c [THEN conjunct2, THEN conjunct2, THEN conjunct2, THEN conjunct2, THEN conjunct2]]
         conjunct2 [OF c [THEN conjunct2, THEN conjunct2, THEN conjunct2, THEN conjunct2, THEN conjunct2], unfolded pendingInstance.select_convs])+
qed

end
