(* ===== verification/Registry.thy ===== *)
theory Registry
  imports Tuning Json
begin

text \<open>
  The registry of Models and the handlers of \<open>src/internal/supervisor/supervisor.go\<close> over it:
  \<open>resolveModel\<close>, \<open>Rescan\<close>, \<open>Evict\<close>, the TTL overrides, the routes, \<open>/health\<close>, the two listings,
  the Tuning and rescan endpoints and the OpenAI proxy. A handler is a function from the state to
  its response; where it blocks (\<open>getOrLaunchInstance\<close>, the eviction of an Instance, the exchange
  with the process) what comes of it is an argument, and \<open>Lifecycle\<close> has the sections.
\<close>

section \<open>Resolving references\<close>

datatype resolve_err = ModelNotFoundError string | AmbiguousModelError string "string list"

fun resolve_Error :: "resolve_err \<Rightarrow> string" where
  "resolve_Error (ModelNotFoundError ref) = ''model '' @ Quote ref @ '' not found''"
| "resolve_Error (AmbiguousModelError name tags) =
     ''model '' @ Quote name @ '' is ambiguous; available tags: '' @ Join tags '', ''"

text \<open>A file that changed on disk since the scan gives the Model a new size, time and digest.\<close>

definition refresh :: "(string \<Rightarrow> FileInfo option) \<Rightarrow> Model \<Rightarrow> Model" where
  "refresh stat m =
     (case stat (m_Path m) of
        Some info \<Rightarrow>
          (if fi_Size info \<noteq> m_Size m \<or> fi_ModTime info \<noteq> m_ModTime m
           then let m = m\<lparr>m_Size := fi_Size info, m_ModTime := fi_ModTime info\<rparr>
                in m\<lparr>m_Digest := computeDigest m\<rparr>
           else m)
      | None \<Rightarrow> m)"

definition resolveModel ::
  "(string \<Rightarrow> FileInfo option) \<Rightarrow> Supervisor \<Rightarrow> string \<Rightarrow> (resolve_err, Model) res"
where
  "resolveModel stat s ref =
     res_bind
       (case s_models s ref of
          Some exact \<Rightarrow> Inr exact
        | None \<Rightarrow>
            (let matches = filter (\<lambda>candidate. m_ID candidate = ref \<or> m_Name candidate = ref) (s_modelsList s)
             in if length matches = 0 then Inl (ModelNotFoundError ref)
                else if length matches = 1 then Inr (matches ! 0)
                else Inl (AmbiguousModelError ref (map m_Tag matches))))
       (\<lambda>m. Inr (refresh stat m))"

text \<open>\<open>Evict\<close>: the ID whose Instance \<open>evictByID\<close> stops.\<close>

definition Evict :: "(string \<Rightarrow> FileInfo option) \<Rightarrow> Supervisor \<Rightarrow> string \<Rightarrow> (resolve_err, string) res" where
  "Evict stat s ref = res_bind (resolveModel stat s ref) (\<lambda>m. Inr (m_ID m))"

section \<open>Rescanning\<close>

text \<open>
  The second section of \<open>Rescan\<close>: the registry is replaced, and the IDs that are gone from it are
  returned, in the order \<open>ids\<close> in which the old map is iterated.
\<close>

definition install_models :: "Model list \<Rightarrow> string list \<Rightarrow> Supervisor \<Rightarrow> string list \<times> Supervisor" where
  "install_models models ids s =
     (let modelMap = registry_of models
      in (filter (\<lambda>i. modelMap i = None) ids, s\<lparr>s_models := modelMap, s_modelsList := models\<rparr>))"

text \<open>
  \<open>Rescan\<close>: its error, the IDs it evicts after it released the lock, and the Supervisor; \<open>scan\<close> is
  \<open>discoverModels\<close> on the file system and with the context of the call, which never fails, and
  \<open>others\<close> what other goroutines do to the Supervisor while it scans.
\<close>

definition ErrClosed :: go_error where
  "ErrClosed = ErrNew ''supervisor is closed''"

definition Rescan ::
  "(string list \<Rightarrow> Model list) \<Rightarrow> (Supervisor \<Rightarrow> Supervisor) \<Rightarrow> (Supervisor \<Rightarrow> string list) \<Rightarrow> Supervisor \<Rightarrow>
     go_error option \<times> string list \<times> Supervisor"
where
  "Rescan scan others ids s =
     (if s_closed s then (Some ErrClosed, [], s)
      else let models = scan (s_dirs s); s = others s
           in if s_closed s then (Some ErrClosed, [], s)
              else (None, install_models models (ids s) s))"

text \<open>
  The goroutine of \<open>startRescanTimer\<close>, by what its \<open>select\<close> finds in each round: a tick, with the
  circumstances of the rescan it starts, or the end of the context, which \<open>stopRescanTimer\<close> brings
  about. The result is the warnings it logs, the IDs it evicts, the Supervisor, and whether the
  goroutine has returned. A positive interval starts it.
\<close>

datatype timer_round =
    RescanTick "string list \<Rightarrow> Model list" "Supervisor \<Rightarrow> Supervisor" "Supervisor \<Rightarrow> string list"
  | RescanCtxDone

fun rescan_rounds ::
  "timer_round list \<Rightarrow> Supervisor \<Rightarrow> go_error list \<times> string list \<times> Supervisor \<times> bool"
where
  "rescan_rounds [] s = ([], [], s, False)"
| "rescan_rounds (RescanCtxDone # rs) s = ([], [], s, True)"
| "rescan_rounds (RescanTick scan others ids # rs) s =
     (let (err, orphaned, s) = Rescan scan others ids s;
          (warnings, evicted, s, ended) = rescan_rounds rs s
      in ((case err of Some e \<Rightarrow> e # warnings | None \<Rightarrow> warnings), orphaned @ evicted, s, ended))"

definition startRescanTimer ::
  "timer_round list \<Rightarrow> Supervisor \<Rightarrow> go_error list \<times> string list \<times> Supervisor \<times> bool"
where
  "startRescanTimer rs s = (if s_rescanInterval s > 0 then rescan_rounds rs s else ([], [], s, True))"

section \<open>TTL overrides\<close>

definition SetModelTTL ::
  "(string \<Rightarrow> FileInfo option) \<Rightarrow> time \<Rightarrow> string \<Rightarrow> duration \<Rightarrow> world \<Rightarrow> resolve_err option \<times> world"
where
  "SetModelTTL stat now modelRef d w =
     (case resolveModel stat (w_sup w) modelRef of
        Inl err \<Rightarrow> (Some err, w)
      | Inr m \<Rightarrow>
          (let w = w\<lparr>w_sup := (w_sup w)\<lparr>s_modelTTLs := (s_modelTTLs (w_sup w))(m_ID m \<mapsto> d)\<rparr>\<rparr>
           in (None,
               case map_of (s_instances (w_sup w)) (m_ID m) of
                 None \<Rightarrow> w
               | Some a \<Rightarrow> w\<lparr>w_residents := (w_residents w)(a := map_option (set_ttl d now) (w_residents w a))\<rparr>)))"

definition ttl_of :: "Supervisor \<Rightarrow> string \<Rightarrow> duration" where
  "ttl_of s i = resolveTTLLocked (s_modelTTLs s) (s_models s) (s_configTTL s) (s_defaultTTL s) i"

definition GetModelTTL ::
  "(string \<Rightarrow> FileInfo option) \<Rightarrow> Supervisor \<Rightarrow> string \<Rightarrow> (resolve_err, duration) res"
where
  "GetModelTTL stat s modelRef = res_bind (resolveModel stat s modelRef) (\<lambda>m. Inr (ttl_of s (m_ID m)))"

section \<open>Routes\<close>

datatype endpoint =
    handleHealth_ep | handleAPITags_ep | handleAPIChat_ep | handleAPIGenerate_ep | handleAPIEmbed_ep
  | handleAPIVersion_ep | handleAPIShow_ep | handleAPIPs_ep | handleV1Models_ep | handleV1OpenAIProxy_ep
  | handleV1TuningGet_ep | handleV1TuningReset_ep | handleV1Rescan_ep

definition routes :: "((string \<times> string) \<times> endpoint) list" where
  "routes =
    [((''GET'', ''/health''), handleHealth_ep),
     ((''GET'', ''/api/tags''), handleAPITags_ep),
     ((''POST'', ''/api/chat''), handleAPIChat_ep),
     ((''POST'', ''/api/generate''), handleAPIGenerate_ep),
     ((''POST'', ''/api/embed''), handleAPIEmbed_ep),
     ((''POST'', ''/api/embeddings''), handleAPIEmbed_ep),
     ((''GET'', ''/api/version''), handleAPIVersion_ep),
     ((''POST'', ''/api/show''), handleAPIShow_ep),
     ((''GET'', ''/api/ps''), handleAPIPs_ep),
     ((''GET'', ''/v1/models''), handleV1Models_ep),
     ((''POST'', ''/v1/chat/completions''), handleV1OpenAIProxy_ep),
     ((''POST'', ''/v1/completions''), handleV1OpenAIProxy_ep),
     ((''POST'', ''/v1/embeddings''), handleV1OpenAIProxy_ep),
     ((''GET'', ''/v1/tuning''), handleV1TuningGet_ep),
     ((''POST'', ''/v1/tuning/reset''), handleV1TuningReset_ep),
     ((''POST'', ''/v1/rescan''), handleV1Rescan_ep),
     ((''POST'', ''/api/rescan''), handleV1Rescan_ep),
     ((''POST'', ''/api/tuning/reset''), handleV1TuningReset_ep),
     ((''DELETE'', ''/api/tuning''), handleV1TuningReset_ep),
     ((''DELETE'', ''/v1/tuning''), handleV1TuningReset_ep),
     ((''GET'', ''/api/tuning''), handleV1TuningGet_ep)]"

text \<open>
  \<open>http.ServeMux\<close> on patterns without wildcards, for a clean path: a \<open>GET\<close> pattern also takes
  \<open>HEAD\<close>; \<^const>\<open>Inl\<close> is the status it answers itself.
\<close>

definition Handler :: "string \<Rightarrow> string \<Rightarrow> int + endpoint" where
  "Handler method path =
     (case map_of routes (method, path) of
        Some ep \<Rightarrow> Inr ep
      | None \<Rightarrow>
          (case (if method = ''HEAD'' then map_of routes (''GET'', path) else None) of
             Some ep \<Rightarrow> Inr ep
           | None \<Rightarrow> if path \<in> (snd \<circ> fst) ` set routes then Inl StatusMethodNotAllowed else Inl StatusNotFound))"

section \<open>Health and listings\<close>

definition handleHealth :: response where
  "handleHealth = writeJSON StatusOK (JObj [(''status'', JStr ''ready'')])"

definition modelDetails :: "Model \<Rightarrow> json" where
  "modelDetails m =
     (let families = (if m_Architecture m \<noteq> [] then JArr [JStr (m_Architecture m)] else JNull)
      in JObj [(''format'', JStr ''gguf''), (''family'', JStr (m_Architecture m)), (''families'', families),
               (''parameter_size'', JStr []), (''quantization_level'', JStr (m_Quantization m))])"

definition ollamaModel :: "Model \<Rightarrow> json" where
  "ollamaModel m =
     JObj [(''name'', JStr (m_ID m)), (''model'', JStr (m_ID m)), (''modified_at'', JTime (m_ModTime m)),
           (''size'', JInt (m_Size m)), (''digest'', JStr (m_Digest m)), (''details'', modelDetails m)]"

definition handleAPITags :: "Supervisor \<Rightarrow> response" where
  "handleAPITags s = writeJSON StatusOK (JObj [(''models'', JArr (map ollamaModel (s_modelsList s)))])"

text \<open>\<open>ModTime.Unix()\<close>: times are nanoseconds since the epoch.\<close>

definition openAIModel :: "Model \<Rightarrow> json" where
  "openAIModel m =
     JObj [(''id'', JStr (m_ID m)), (''object'', JStr ''model''),
           (''created'', JInt (m_ModTime m div 1000000000)), (''owned_by'', JStr ''llm-server'')]"

definition handleV1Models :: "Supervisor \<Rightarrow> response" where
  "handleV1Models s =
     writeJSON StatusOK
       (JObj [(''object'', JStr ''list''), (''data'', JArr (map openAIModel (s_modelsList s)))])"

section \<open>The OpenAI proxy\<close>

definition writeOpenAIError :: "int \<Rightarrow> string \<Rightarrow> string \<Rightarrow> string \<Rightarrow> response" where
  "writeOpenAIError st message param code =
     Reply st ''application/json''
       [JObj [(''error'', JObj [(''message'', JStr message), (''type'', JStr ''invalid_request_error''),
                                (''param'', JStr param), (''code'', JStr code)])]]"

text \<open>A request body: reading fails, its text is no JSON, or a JSON value.\<close>

datatype request_body = ReadFails | NotJSON | Body json

definition openAIRequest :: "json \<Rightarrow> string option" where
  "openAIRequest b = dec_struct (dec_field dec_str ''model'' []) b"

fun proxy_resolve_error :: "resolve_err \<Rightarrow> response" where
  "proxy_resolve_error (ModelNotFoundError ref) =
     writeOpenAIError StatusNotFound (''The model '' @ [CHR 0x27] @ ref @ [CHR 0x27] @ '' does not exist'')
       ''model'' ''model_not_found''"
| "proxy_resolve_error (AmbiguousModelError name tags) =
     writeOpenAIError StatusBadRequest
       (''model '' @ [CHR 0x27] @ name @ [CHR 0x27] @ '' is ambiguous; available tags: '' @ Join tags '', '')
       ''model'' ''model_ambiguous''"

definition proxy_launch_error :: "go_error \<Rightarrow> response" where
  "proxy_launch_error err =
     (if is_Canceled err then Silent
      else if Error err = ''supervisor is closed''
      then writeOpenAIError StatusServiceUnavailable (Error err) [] ''service_unavailable''
      else writeOpenAIError StatusInternalServerError (Error err) [] ''internal_error'')"

definition proxy_ErrorHandler :: "go_error \<Rightarrow> response" where
  "proxy_ErrorHandler err =
     (if is_Canceled err then Silent
      else writeOpenAIError StatusServiceUnavailable (''proxy error: '' @ Error err) [] ''service_unavailable'')"

text \<open>
  \<open>get\<close> is what \<open>getOrLaunchInstance\<close> returns for a Model, \<open>send\<close> what the process answers to the
  request that is passed on unchanged.
\<close>

definition handleV1OpenAIProxy ::
  "(string \<Rightarrow> FileInfo option) \<Rightarrow> (Model \<Rightarrow> (go_error, nat) res) \<Rightarrow> (nat \<Rightarrow> json \<Rightarrow> (go_error, response) res) \<Rightarrow>
     Supervisor \<Rightarrow> request_body \<Rightarrow> response"
where
  "handleV1OpenAIProxy stat get send s b =
     (case b of
        ReadFails \<Rightarrow> writeOpenAIError StatusBadRequest ''failed to read request body'' [] ''invalid_request''
      | NotJSON \<Rightarrow> writeOpenAIError StatusBadRequest ''invalid request body'' ''model'' ''invalid_request''
      | Body v \<Rightarrow>
          (case openAIRequest v of
             None \<Rightarrow> writeOpenAIError StatusBadRequest ''invalid request body'' ''model'' ''invalid_request''
           | Some ref \<Rightarrow>
               if ref = [] then writeOpenAIError StatusBadRequest ''invalid request body'' ''model'' ''invalid_request''
               else
                 (case resolveModel stat s ref of
                    Inl err \<Rightarrow> proxy_resolve_error err
                  | Inr model \<Rightarrow>
                      (case get model of
                         Inl err \<Rightarrow> proxy_launch_error err
                       | Inr inst \<Rightarrow>
                           (case send inst v of Inl err \<Rightarrow> proxy_ErrorHandler err | Inr resp \<Rightarrow> resp)))))"

section \<open>Tuning and rescan endpoints\<close>

text \<open>
  The JSON of a map has its keys in order; \<open>ids\<close> are the keys of \<open>s.tuned\<close> and \<open>fp\<close> the
  fingerprint of the host.
\<close>

definition handleV1TuningGet :: "string \<Rightarrow> time \<Rightarrow> string list \<Rightarrow> Supervisor \<Rightarrow> response" where
  "handleV1TuningGet fp now ids s =
     (let active = s_tuningActiveModel s;
          status = (if active \<noteq> [] then ''tuning'' else ''idle'');
          prog = JObj [(''started_at'', JTime (s_tuningStartedAt s)),
                       (''elapsed_seconds'', JSeconds (now - s_tuningStartedAt s)),
                       (''current_ctx'', JInt (uint (s_tuningCurrentCtx s))),
                       (''current_offload'', JInt (uint (s_tuningCurrentOffload s))),
                       (''probe_count'', JInt (s_tuningProbeCount s))]
      in writeJSON StatusOK
           (JObj ([(''status'', JStr status)] @
                  (if active \<noteq> [] then [(''active_model'', JStr active)] else []) @
                  [(''fingerprint'', JStr fp)] @
                  (if active \<noteq> [] then [(''progress'', prog)] else []) @
                  [(''entries'', JObj (List.map_filter
                      (\<lambda>i. map_option (\<lambda>te. (i, json_of_entry te)) (s_tuned s i)) (sort ids)))])))"

text \<open>
  The reference of a reset: from the query, or else from the body, whose decoding errors are
  ignored; \<open>b\<close> is \<^const>\<open>None\<close> without a body or one that is no JSON.
\<close>

definition tuningResetRequest :: "json \<Rightarrow> string" where
  "tuningResetRequest b =
     (case b of
        JObj kvs \<Rightarrow>
          foldl (\<lambda>a (k, v). if EqualFold k ''model'' then (case dec_str v a of Some a' \<Rightarrow> a' | None \<Rightarrow> a) else a) [] kvs
      | _ \<Rightarrow> [])"

definition reset_ref :: "(string \<Rightarrow> string) \<Rightarrow> json option \<Rightarrow> string" where
  "reset_ref query b =
     (let ref = query ''model'';
          ref = (if ref = [] then query ''ref'' else ref)
      in if ref = [] then (case b of Some v \<Rightarrow> tuningResetRequest v | None \<Rightarrow> []) else ref)"

definition reset_target :: "(string \<Rightarrow> FileInfo option) \<Rightarrow> Supervisor \<Rightarrow> string \<Rightarrow> string" where
  "reset_target stat s ref = (case resolveModel stat s ref of Inr m \<Rightarrow> m_ID m | Inl _ \<Rightarrow> ref)"

definition ok_message :: "string \<Rightarrow> response" where
  "ok_message msg = writeJSON StatusOK (JObj [(''message'', JStr msg), (''status'', JStr ''ok'')])"

text \<open>
  \<open>evicted i\<close> is what becomes of the world until \<open>evictByID\<close> for an ID returns, and \<open>removed\<close> tells
  whether \<open>os.Remove\<close> succeeds.
\<close>

definition handleV1TuningReset ::
  "machine \<Rightarrow> (string \<Rightarrow> FileInfo option) \<Rightarrow> (string \<Rightarrow> world \<Rightarrow> world) \<Rightarrow> bool \<Rightarrow> (string \<Rightarrow> string) \<Rightarrow> json option \<Rightarrow>
     world \<Rightarrow> response \<times> world"
where
  "handleV1TuningReset e stat evicted removed query b w =
     (let ref = reset_ref query b
      in if ref \<noteq> [] then
           (let targetID = reset_target stat (w_sup w) ref;
                w = (case Evict stat (w_sup w) targetID of Inr i \<Rightarrow> evicted i w | Inl _ \<Rightarrow> w);
                w = drop_entry e targetID w
            in (ok_message (''tuning cache entry reset for model '' @ targetID), w))
         else
           (let w = evictAllResidentInstances e w;
                s = (w_sup w)\<lparr>s_tuned := Map.empty\<rparr>;
                w = w\<lparr>w_sup := s,
                      w_files := (if s_cachePath s \<noteq> [] \<and> removed then (w_files w)(s_cachePath s := None)
                                  else w_files w)\<rparr>
            in (ok_message ''all tuning cache entries reset'', w)))"

text \<open>\<open>later\<close> is what other goroutines do to the Supervisor before its Models are counted.\<close>

definition handleV1Rescan ::
  "(string list \<Rightarrow> Model list) \<Rightarrow> (Supervisor \<Rightarrow> Supervisor) \<Rightarrow> (Supervisor \<Rightarrow> string list) \<Rightarrow>
     (Supervisor \<Rightarrow> Supervisor) \<Rightarrow> Supervisor \<Rightarrow> response \<times> string list \<times> Supervisor"
where
  "handleV1Rescan scan others ids later s =
     (case Rescan scan others ids s of
        (Some err, orphaned, s) \<Rightarrow>
          (writeJSON StatusServiceUnavailable
             (JObj [(''message'', JStr (Error err)), (''status'', JStr ''error'')]), orphaned, s)
      | (None, orphaned, s) \<Rightarrow>
          (let s = later s
           in (writeJSON StatusOK
                 (JObj [(''status'', JStr ''ok''), (''models'', JInt (int (length (s_modelsList s))))]),
               orphaned, s)))"

section \<open>Registries\<close>

text \<open>
  What a registry promises: the map holds the listed Models under their IDs, the list is in the
  order of the IDs, and every Model is well formed.
\<close>

definition registry_ok :: "Supervisor \<Rightarrow> bool" where
  "registry_ok s \<longleftrightarrow>
     (\<forall>i m. s_models s i = Some m \<longleftrightarrow> m \<in> set (s_modelsList s) \<and> m_ID m = i) \<and>
     sorted_wrt (<) (map m_ID (s_modelsList s)) \<and> (\<forall>m \<in> set (s_modelsList s). model_wf m)"

lemma refresh_keeps [simp]:
  "m_ID (refresh stat m) = m_ID m" "m_Name (refresh stat m) = m_Name m" "m_Tag (refresh stat m) = m_Tag m"
  "m_Path (refresh stat m) = m_Path m"
  by (simp_all add: refresh_def Let_def split: option.split)

lemma refresh_digest: "m_Digest m = computeDigest m \<Longrightarrow> m_Digest (refresh stat m) = computeDigest (refresh stat m)"
  by (auto simp: refresh_def Let_def computeDigest_def split: option.split)

locale registry =
  fixes s :: Supervisor
  assumes lookup: "s_models s i = Some m \<longleftrightarrow> m \<in> set (s_modelsList s) \<and> m_ID m = i"
    and ordered: "sorted_wrt (<) (map m_ID (s_modelsList s))"
    and wf: "m \<in> set (s_modelsList s) \<Longrightarrow> model_wf m"
begin

lemma distinct_ids: "distinct (map m_ID (s_modelsList s))"
  using ordered by (simp add: strict_sorted_iff)

lemma same_id: "m \<in> set (s_modelsList s) \<Longrightarrow> m' \<in> set (s_modelsList s) \<Longrightarrow> m_ID m = m_ID m' \<Longrightarrow> m = m'"
  using distinct_ids by (auto simp: distinct_map inj_on_def)

text \<open>An ID resolves to its Model, also when it is the name of another one.\<close>

lemma resolve_id: "m \<in> set (s_modelsList s) \<Longrightarrow> resolveModel stat s (m_ID m) = Inr (refresh stat m)"
  using lookup [of "m_ID m" m] by (simp add: resolveModel_def)

lemma no_id: "s_models s ref = None \<longleftrightarrow> (\<forall>m \<in> set (s_modelsList s). m_ID m \<noteq> ref)"
  using lookup [of ref] by (cases "s_models s ref") auto

lemma matches_name:
  "s_models s ref = None \<Longrightarrow>
     filter (\<lambda>m. m_ID m = ref \<or> m_Name m = ref) (s_modelsList s) = filter (\<lambda>m. m_Name m = ref) (s_modelsList s)"
  by (rule filter_cong) (auto simp: no_id)

lemma resolve_name:
  "s_models s ref = None \<Longrightarrow>
     resolveModel stat s ref =
       (case filter (\<lambda>m. m_Name m = ref) (s_modelsList s) of
          [] \<Rightarrow> Inl (ModelNotFoundError ref)
        | [m] \<Rightarrow> Inr (refresh stat m)
        | ms \<Rightarrow> Inl (AmbiguousModelError ref (map m_Tag ms)))"
  by (simp add: resolveModel_def matches_name split: list.split)

lemma by_name_tag:
  assumes "m \<in> set (filter (\<lambda>m. m_Name m = ref) (s_modelsList s))"
  shows "resolveModel stat s (ref @ '':'' @ m_Tag m) = Inr (refresh stat m)"
proof -
  have "m \<in> set (s_modelsList s)" "m_ID m = ref @ '':'' @ m_Tag m" using assms wf [of m] by (auto simp: model_wf_def)
  with resolve_id [of m stat] show ?thesis by simp
qed

lemma distinct_tags: "distinct (map m_Tag (filter (\<lambda>m. m_Name m = ref) (s_modelsList s)))"
proof -
  let ?ms = "filter (\<lambda>m. m_Name m = ref) (s_modelsList s)"
  have "m_ID m = ref @ '':'' @ m_Tag m" if "m \<in> set ?ms" for m using that wf [of m] by (auto simp: model_wf_def)
  then have "map m_ID ?ms = map (\<lambda>t. ref @ '':'' @ t) (map m_Tag ?ms)" by simp
  moreover have "distinct (map m_ID ?ms)" using distinct_ids by (rule distinct_map_filter)
  ultimately show ?thesis by (metis distinct_map)
qed

end

lemma registry_iff: "registry s \<longleftrightarrow> registry_ok s"
  unfolding registry_def registry_ok_def by auto

text \<open>A rescan installs a registry, whatever the scan found.\<close>

interpretation rescanned: registry "snd (install_models (discoverModels ovf fs dirs) ids s)" for ovf fs dirs ids s
  by unfold_locales
     (simp_all add: install_models_def Let_def disc.registry_lookup disc.strictly_sorted disc.scan_wf)

lemma NewWithOpts_registry:
  assumes "NewWithOpts e (discoverModels ovf fs) pd read_config files dirs opts = Inr (s, files')"
  shows "registry_ok s"
proof -
  define s0 where "s0 = foldl apply_option (initial_supervisor (discoverModels ovf fs dirs) dirs) opts"
  have s0: "s_models s0 = registry_of (discoverModels ovf fs dirs)" "s_modelsList s0 = discoverModels ovf fs dirs"
    using apply_options_keep [of "initial_supervisor (discoverModels ovf fs dirs) dirs" opts]
    unfolding s0_def by (simp_all add: initial_supervisor_def)
  have "s_models s = s_models s0" "s_modelsList s = s_modelsList s0"
    using assms unfolding NewWithOpts_def s0_def [symmetric]
    by (auto simp: res_bind_Inr_iff Let_def split: if_splits prod.splits)
  with s0 show ?thesis
    by (simp add: registry_ok_def disc.registry_lookup disc.strictly_sorted disc.scan_wf)
qed

text \<open>
  The goroutine of the timer leaves a closed Supervisor alone, also when its \<open>select\<close> still takes
  ticks: the only trace is a warning for each.
\<close>

lemma rescan_rounds_closed:
  assumes "s_closed s"
  shows "\<exists>n ended. rescan_rounds rs s = (replicate n ErrClosed, [], s, ended) \<and> n \<le> length rs"
proof (induction rs)
  case Nil
  show ?case by (intro exI [of _ 0] exI [of _ False]) simp
next
  case (Cons r rs)
  show ?case
  proof (cases r)
    case (RescanTick scan others ids)
    from Cons.IH obtain n ended where "rescan_rounds rs s = (replicate n ErrClosed, [], s, ended)" "n \<le> length rs" by blast
    with assms RescanTick show ?thesis by (intro exI [of _ "Suc n"] exI [of _ ended]) (simp add: Rescan_def)
  next
    case RescanCtxDone
    then show ?thesis by (intro exI [of _ 0] exI [of _ True]) simp
  qed
qed

context registry
begin

lemma resolve_spec:
  "case resolveModel stat s ref of
      Inr m \<Rightarrow> (\<exists>c \<in> set (s_modelsList s). m = refresh stat c \<and> m_Digest m = computeDigest m \<and>
        (m_ID c = ref \<or> m_Name c = ref \<and>
           (\<forall>c' \<in> set (s_modelsList s). m_ID c' \<noteq> ref \<and> (m_Name c' = ref \<longrightarrow> c' = c))))
    | Inl (ModelNotFoundError r) \<Rightarrow> r = ref \<and> (\<forall>c \<in> set (s_modelsList s). m_ID c \<noteq> ref \<and> m_Name c \<noteq> ref)
    | Inl (AmbiguousModelError n tags) \<Rightarrow> n = ref \<and> 2 \<le> length tags \<and> distinct tags \<and>
        (\<forall>c \<in> set (s_modelsList s). m_ID c \<noteq> ref) \<and>
        (\<forall>t \<in> set tags. \<exists>m. resolveModel stat s (ref @ '':'' @ t) = Inr m \<and> m_Name m = ref \<and> m_Tag m = t)"
proof (cases "s_models s ref")
  case (Some m)
  then have m: "m \<in> set (s_modelsList s)" "m_ID m = ref" using lookup by auto
  with resolve_id [of m stat] refresh_digest [of m stat] wf [of m] show ?thesis by (auto simp: model_wf_def)
next
  case None
  let ?ms = "filter (\<lambda>m. m_Name m = ref) (s_modelsList s)"
  have none: "\<forall>c \<in> set (s_modelsList s). m_ID c \<noteq> ref" using None by (simp add: no_id)
  consider "?ms = []" | c where "?ms = [c]" | c d ms where "?ms = c # d # ms" by (metis list.exhaust)
  then show ?thesis
  proof cases
    case 1
    with none show ?thesis by (auto simp: resolve_name [OF None] filter_empty_conv)
  next
    case (2 c)
    then have "set ?ms = {c}" by simp
    then have c: "c \<in> set (s_modelsList s)" "m_Name c = ref" "\<forall>c' \<in> set (s_modelsList s). m_Name c' = ref \<longrightarrow> c' = c"
      by auto
    have r: "resolveModel stat s ref = Inr (refresh stat c)" by (simp add: resolve_name [OF None] 2)
    have "m_Digest (refresh stat c) = computeDigest (refresh stat c)"
      using refresh_digest wf [OF c(1)] by (simp add: model_wf_def)
    with c none show ?thesis unfolding r sum.case by blast
  next
    case (3 c d ms)
    have r: "resolveModel stat s ref = Inl (AmbiguousModelError ref (map m_Tag ?ms))"
      by (simp add: resolve_name [OF None] 3)
    have t: "\<exists>m. resolveModel stat s (ref @ '':'' @ t) = Inr m \<and> m_Name m = ref \<and> m_Tag m = t"
      if "t \<in> set (map m_Tag ?ms)" for t
      using that by_name_tag [of _ ref stat] by auto
    have l: "2 \<le> length (map m_Tag ?ms)" by (simp add: 3)
    show ?thesis unfolding r using none t l distinct_tags [of ref] by (simp del: length_map)
  qed
qed

end

text \<open>A registry of two quantizations of one Model, for examples.\<close>

definition model_at :: "string \<Rightarrow> string \<Rightarrow> string \<Rightarrow> Model" where
  "model_at name tag path =
     (let m = sample_model\<lparr>m_ID := name @ '':'' @ tag, m_Name := name, m_Tag := tag, m_Path := path\<rparr>
      in m\<lparr>m_Digest := computeDigest m\<rparr>)"

definition two_models :: "Model list" where
  "two_models = [model_at ''big'' ''q4_0'' ''/m/a.gguf'', model_at ''big'' ''q8_0'' ''/m/b.gguf'']"

definition two :: Supervisor where
  "two = initial_supervisor two_models [''/m'']"

lemma model_at_simps [simp]:
  "m_ID (model_at n t p) = n @ '':'' @ t" "m_Name (model_at n t p) = n" "m_Tag (model_at n t p) = t"
  "m_Path (model_at n t p) = p" "m_Digest (model_at n t p) = computeDigest (model_at n t p)"
  by (simp_all add: model_at_def Let_def computeDigest_def)

lemma two_simps [simp]: "s_modelsList two = two_models" "s_models two = registry_of two_models"
  "s_closed two = False" "s_dirs two = [''/m'']" "s_instances two = []" "s_tuned two = Map.empty"
  by (simp_all add: two_def initial_supervisor_def)

lemma two_ok: "registry_ok two"
proof -
  have d: "distinct (map m_ID two_models)" by (simp add: two_models_def)
  have "s_models two i = Some m \<longleftrightarrow> m \<in> set two_models \<and> m_ID m = i" for i m
    using map_of_eq_Some_iff [of "map (\<lambda>m. (m_ID m, m)) two_models" i m] d
    by (auto simp: registry_of_map_of [OF d] comp_def)
  moreover have "model_wf m" if "m \<in> set two_models" for m
    using that by (auto simp: two_models_def model_wf_def is_sep_def ToLower_def lower_char_def)
  moreover have "sorted_wrt (<) (map m_ID two_models)" by (simp add: two_models_def)
  ultimately show ?thesis by (simp add: registry_ok_def)
qed

section \<open>Properties\<close>

text \<open>
  C9. A reference resolves to the Model that has it as its ID, or else to the only Model that
  has it as its name, with size, time and digest of the file as it is now. It is not found
  exactly when no Model has it as ID or name. It is ambiguous when several Models share the name:
  then the error lists the tag of each once, and the name with any of these tags resolves.
\<close>

theorem resolveModel_spec:
  assumes "registry_ok s"
  shows "case resolveModel stat s ref of
      Inr m \<Rightarrow> (\<exists>c \<in> set (s_modelsList s). m = refresh stat c \<and> m_Digest m = computeDigest m \<and>
        (m_ID c = ref \<or> m_Name c = ref \<and>
           (\<forall>c' \<in> set (s_modelsList s). m_ID c' \<noteq> ref \<and> (m_Name c' = ref \<longrightarrow> c' = c))))
    | Inl (ModelNotFoundError r) \<Rightarrow> r = ref \<and> (\<forall>c \<in> set (s_modelsList s). m_ID c \<noteq> ref \<and> m_Name c \<noteq> ref)
    | Inl (AmbiguousModelError n tags) \<Rightarrow> n = ref \<and> 2 \<le> length tags \<and> distinct tags \<and>
        (\<forall>c \<in> set (s_modelsList s). m_ID c \<noteq> ref) \<and>
        (\<forall>t \<in> set tags. \<exists>m. resolveModel stat s (ref @ '':'' @ t) = Inr m \<and> m_Name m = ref \<and> m_Tag m = t)"
  using registry.resolve_spec [of s] assms by (simp add: registry_iff)

theorem resolveModel_spec_witness:
  "resolveModel (\<lambda>_. None) two ''big'' = Inl (AmbiguousModelError ''big'' [''q4_0'', ''q8_0'']) \<and>
   (\<exists>m. resolveModel (\<lambda>_. None) two ''big:q8_0'' = Inr m \<and> m_Tag m = ''q8_0'')"
proof -
  have r: "resolveModel (\<lambda>_. None) two ''big'' = Inl (AmbiguousModelError ''big'' [''q4_0'', ''q8_0''])"
    by (simp add: resolveModel_def registry_of_def two_models_def)
  with resolveModel_spec [OF two_ok, where stat = "\<lambda>_. None" and ref = "''big''"] show ?thesis by auto
qed

text \<open>
  C20. A rescan replaces the registry by what the scan finds and nothing else of the Supervisor:
  resident Instances, Tuning results and settings stay. The IDs it evicts are exactly those that
  are gone from the registry. A closed Supervisor is left as it is and reported as an error.
\<close>

theorem Rescan_correct:
  assumes "Rescan (discoverModels ovf fs) others ids s = (err, orphaned, s')"
    and "set (ids (others s)) = dom (s_models (others s))"
  shows "case err of
      None \<Rightarrow> registry_ok s' \<and> s_modelsList s' = discoverModels ovf fs (s_dirs s) \<and>
        set orphaned = dom (s_models (others s)) - dom (s_models s') \<and>
        s' = (others s)\<lparr>s_models := s_models s', s_modelsList := s_modelsList s'\<rparr> \<and> \<not> s_closed s'
    | Some e \<Rightarrow> e = ErrClosed \<and> orphaned = [] \<and> s' \<in> {s, others s} \<and> s_closed s'"
proof (cases "s_closed s \<or> s_closed (others s)")
  case True
  then show ?thesis using assms(1) by (auto simp: Rescan_def Let_def split: if_splits)
next
  case False
  let ?i = "install_models (discoverModels ovf fs (s_dirs s)) (ids (others s)) (others s)"
  have "err = None" "(orphaned, s') = ?i" using False assms(1) by (auto simp: Rescan_def Let_def)
  moreover have "registry_ok (snd ?i)" using rescanned.registry_axioms by (simp only: registry_iff)
  ultimately show ?thesis using False assms(2) by (auto simp: install_models_def Let_def)
qed

lemma two_dom: "dom (s_models two) = {''big:q4_0'', ''big:q8_0''}"
  by (simp add: registry_of_def two_models_def insert_commute)

theorem Rescan_correct_witness:
  "\<exists>orphaned s'. Rescan (discoverModels 0 sample_fs) (\<lambda>u. u) (\<lambda>_. [''big:q8_0'', ''big:q4_0'']) two = (None, orphaned, s') \<and>
     registry_ok s' \<and> set orphaned = {''big:q4_0'', ''big:q8_0''} - dom (s_models s')"
proof -
  obtain orphaned s' where
    r: "Rescan (discoverModels 0 sample_fs) (\<lambda>u. u) (\<lambda>_. [''big:q8_0'', ''big:q4_0'']) two = (None, orphaned, s')"
    by (simp add: Rescan_def install_models_def Let_def)
  have "set [''big:q8_0'', ''big:q4_0''] = dom (s_models two)" unfolding two_dom by auto
  from Rescan_correct [OF r, OF this] have "registry_ok s'" "set orphaned = {''big:q4_0'', ''big:q8_0''} - dom (s_models s')"
    unfolding two_dom option.case by blast+
  with r show ?thesis by blast
qed

lemma cancelled_scan:
  assumes "\<And>dir v. v \<in> set (walk fs dir) \<Longrightarrow> v_err v \<or> v_cancelled v"
  shows "discoverModels ovf fs dirs = []"
proof -
  have "takeWhile (\<lambda>v. \<not> v_cancelled v) (filter (\<lambda>v. \<not> v_err v) (walk fs dir)) = []" for dir
  proof (cases "filter (\<lambda>v. \<not> v_err v) (walk fs dir)")
    case (Cons v vs)
    then have "v \<in> set (filter (\<lambda>v. \<not> v_err v) (walk fs dir))" by simp
    then have "v_cancelled v" using assms [of v dir] by auto
    with Cons show ?thesis by simp
  qed simp
  then have "accepted ovf fs dirs = []" by (simp add: accepted_def accepted_in_def map_filter_simps)
  then show ?thesis using discoverModels_accepted [of _ ovf fs dirs] by (metis empty_iff list.set(1) set_empty subset_empty subsetI)
qed

text \<open>
  C39. A rescan whose context is cancelled before its walk reports success, although it read
  nothing: the registry becomes empty and every Model that was registered is evicted as orphaned.
  A client that closes its connection during \<open>POST /v1/rescan\<close> has this effect, until the next
  scan.
\<close>

theorem cancelled_rescan_drops_all:
  assumes "\<not> s_closed s" "\<And>dir v. v \<in> set (walk fs dir) \<Longrightarrow> v_err v \<or> v_cancelled v"
  shows "Rescan (discoverModels ovf fs) (\<lambda>u. u) ids s =
    (None, ids s, s\<lparr>s_models := Map.empty, s_modelsList := []\<rparr>)"
  using assms(1) by (simp add: Rescan_def install_models_def Let_def cancelled_scan [OF assms(2)] registry_of_def)

theorem cancelled_rescan_drops_all_witness:
  "Rescan (discoverModels 0 (sample_fs\<lparr>walk := \<lambda>_. [sample_visit\<lparr>v_cancelled := True\<rparr>]\<rparr>)) (\<lambda>u. u)
     (\<lambda>_. [''big:q4_0'', ''big:q8_0'']) two =
   (None, [''big:q4_0'', ''big:q8_0''], two\<lparr>s_models := Map.empty, s_modelsList := []\<rparr>)"
  using cancelled_rescan_drops_all [of two "sample_fs\<lparr>walk := \<lambda>_. [sample_visit\<lparr>v_cancelled := True\<rparr>]\<rparr>" 0
      "\<lambda>_. [''big:q4_0'', ''big:q8_0'']"]
  by simp

text \<open>The member of an object, and the strings that a listing gives for its elements.\<close>

fun member :: "string \<Rightarrow> json \<Rightarrow> json option" where
  "member k (JObj kvs) = map_of kvs k"
| "member k _ = None"

definition listed :: "string \<Rightarrow> string \<Rightarrow> response \<Rightarrow> json option list" where
  "listed outer k r =
     (case r of
        Reply _ _ [b] \<Rightarrow> (case member outer b of Some (JArr vs) \<Rightarrow> map (member k) vs | _ \<Rightarrow> [])
      | _ \<Rightarrow> [])"

text \<open>
  C33. The two listings, \<open>/api/tags\<close> and \<open>/v1/models\<close>, name the same Models in the same order, the
  order of the IDs, each Model once, and every name they give resolves to the Model it names.
\<close>

theorem listings_resolve:
  assumes "registry_ok s"
  shows "\<exists>names. listed ''models'' ''name'' (handleAPITags s) = map (Some \<circ> JStr) names \<and>
    listed ''data'' ''id'' (handleV1Models s) = map (Some \<circ> JStr) names \<and> sorted_wrt (<) names \<and>
    set names = dom (s_models s) \<and>
    (\<forall>ref \<in> set names. \<exists>m. resolveModel stat s ref = Inr m \<and> m_ID m = ref)"
proof -
  have reg: "registry s" using assms by (simp add: registry_iff)
  have "listed ''models'' ''name'' (handleAPITags s) = map (Some \<circ> JStr) (map m_ID (s_modelsList s))"
    "listed ''data'' ''id'' (handleV1Models s) = map (Some \<circ> JStr) (map m_ID (s_modelsList s))"
    by (simp_all add: listed_def handleAPITags_def handleV1Models_def writeJSON_def ollamaModel_def openAIModel_def
        comp_def)
  moreover have "set (map m_ID (s_modelsList s)) = dom (s_models s)"
    using registry.lookup [OF reg] by (auto simp: dom_def)
  moreover have "\<exists>m. resolveModel stat s ref = Inr m \<and> m_ID m = ref" if "ref \<in> set (map m_ID (s_modelsList s))" for ref
    using that registry.resolve_id [OF reg] by auto
  ultimately show ?thesis using registry.ordered [OF reg] by metis
qed

theorem listings_resolve_witness:
  "listed ''models'' ''name'' (handleAPITags two) = [Some (JStr ''big:q4_0''), Some (JStr ''big:q8_0'')] \<and>
   (\<exists>m. resolveModel (\<lambda>_. None) two ''big:q8_0'' = Inr m \<and> m_ID m = ''big:q8_0'')"
proof -
  have "listed ''models'' ''name'' (handleAPITags two) = [Some (JStr ''big:q4_0''), Some (JStr ''big:q8_0'')]"
    by (simp add: listed_def handleAPITags_def writeJSON_def ollamaModel_def two_models_def)
  moreover obtain names where "set names = dom (s_models two)"
    "\<forall>ref \<in> set names. \<exists>m. resolveModel (\<lambda>_. None) two ref = Inr m \<and> m_ID m = ref"
    using listings_resolve [OF two_ok] by blast
  ultimately show ?thesis unfolding two_dom by blast
qed

lemma set_ttl_ttl: "ri_ttl (set_ttl d now ri) = d"
  by (simp add: set_ttl_def arm_timer_def stop_if_set_def stop_timer_def Let_def)

text \<open>
  An idle TTL set for a Model at runtime is the one in force: it is read back under every
  reference that resolves to the Model, above configuration and default, and the resident
  Instance of the Model, if any, gets it too.
\<close>

theorem SetModelTTL_roundtrip:
  assumes "resolveModel stat (w_sup w) ref = Inr m" "resolveModel stat (w_sup w) ref' = Inr m'" "m_ID m' = m_ID m"
    "SetModelTTL stat now ref d w = (err, w')"
  shows "err = None \<and> GetModelTTL stat (w_sup w') ref' = Inr d \<and>
    (\<forall>a ri. map_of (s_instances (w_sup w)) (m_ID m) = Some a \<and> w_residents w a = Some ri \<longrightarrow>
       (\<exists>ri'. w_residents w' a = Some ri' \<and> ri_ttl ri' = d))"
proof -
  have s: "s_models (w_sup w') = s_models (w_sup w)" "s_modelsList (w_sup w') = s_modelsList (w_sup w)"
    "s_modelTTLs (w_sup w') = (s_modelTTLs (w_sup w))(m_ID m \<mapsto> d)"
    using assms(1,4) by (auto simp: SetModelTTL_def Let_def split: option.splits)
  have "resolveModel stat (w_sup w') ref' = Inr m'" using assms(2) unfolding resolveModel_def s .
  then have "GetModelTTL stat (w_sup w') ref' = Inr d"
    by (simp add: GetModelTTL_def ttl_of_def resolveTTLLocked_def s assms(3))
  with assms(1,4) show ?thesis by (auto simp: SetModelTTL_def Let_def set_ttl_ttl split: option.splits)
qed

definition at_rest :: world where
  "at_rest = \<lparr>w_sup = two, w_residents = Map.empty, w_files = Map.empty, w_running = [], w_launches = [], w_contexts = [], w_tick = 0\<rparr>"

theorem SetModelTTL_roundtrip_witness:
  "\<exists>w'. SetModelTTL (\<lambda>_. None) 0 ''big:q8_0'' 42 at_rest = (None, w') \<and>
     GetModelTTL (\<lambda>_. None) (w_sup w') ''big:q8_0'' = Inr 42"
proof -
  obtain m where m: "resolveModel (\<lambda>_. None) (w_sup at_rest) ''big:q8_0'' = Inr m"
    by (simp add: at_rest_def resolveModel_def registry_of_def two_models_def)
  obtain err w' where w: "SetModelTTL (\<lambda>_. None) 0 ''big:q8_0'' 42 at_rest = (err, w')" by fastforce
  from SetModelTTL_roundtrip [OF m m refl w] w show ?thesis by auto
qed

text \<open>
  Resetting the Tuning of a Model by any reference that resolves to it removes its entry, so
  that the next launch without a Pin tunes again.
\<close>

theorem reset_forces_tuning:
  assumes "reset_ref query b \<noteq> []" "resolveModel stat (w_sup w) (reset_ref query b) = Inr m"
    "handleV1TuningReset e stat evicted removed query b w = (r, w')" "m_ID m' = m_ID m"
    "resolvePin (s_config (w_sup w')) m' = NoPin"
  shows "s_tuned (w_sup w') (m_ID m) = None \<and>
    launchInstance e m' w' = map_option (\<lambda>(r, w). (Returns r, w)) (tune e m' w')"
proof -
  have "s_tuned (w_sup w') (m_ID m) = None"
    using assms(1-3) by (auto simp: handleV1TuningReset_def Let_def reset_target_def drop_entry_def)
  then show ?thesis using assms(4,5) by (simp add: launchInstance_def)
qed

theorem reset_forces_tuning_witness:
  "\<exists>r w'. handleV1TuningReset sample_machine (\<lambda>_. None) (\<lambda>_ w. w) True (\<lambda>k. if k = ''model'' then ''big:q4_0'' else [])
      None at_rest = (r, w') \<and> s_tuned (w_sup w') ''big:q4_0'' = None"
proof -
  let ?q = "\<lambda>k. if k = ''model'' then ''big:q4_0'' else []"
  have ref: "reset_ref ?q None = ''big:q4_0''" by (simp add: reset_ref_def)
  let ?m = "model_at ''big'' ''q4_0'' ''/m/a.gguf''"
  have m: "resolveModel (\<lambda>_. None) (w_sup at_rest) (reset_ref ?q None) = Inr ?m"
    unfolding ref by (simp add: at_rest_def resolveModel_def registry_of_def two_models_def refresh_def)
  obtain r w' where h: "handleV1TuningReset sample_machine (\<lambda>_. None) (\<lambda>_ w. w) True ?q None at_rest = (r, w')"
    by fastforce
  have "s_config (w_sup w') = Map.empty"
    using h m ref by (auto simp: handleV1TuningReset_def Let_def drop_entry_def at_rest_def two_def initial_supervisor_def
        split: sum.splits)
  then have p: "resolvePin (s_config (w_sup w')) ?m = NoPin"
    by (simp add: resolvePin_def resolveModelConfig_def lookupByModelKeys_def)
  have "reset_ref ?q None \<noteq> []" by (simp add: ref)
  from reset_forces_tuning [OF this m h refl p] h show ?thesis by auto
qed

text \<open>
  Resetting by a bare name that several Models share reports success and names what it
  reset, but does nothing: entries are kept under IDs, and the name resolves to none, so every
  entry stays and no Instance is evicted.
\<close>

theorem ambiguous_reset_is_noop:
  assumes "reset_ref query b = ref" "ref \<noteq> []" "resolveModel stat (w_sup w) ref = Inl (AmbiguousModelError ref tags)"
    "s_tuned (w_sup w) ref = None"
  shows "\<exists>w'. handleV1TuningReset e stat evicted removed query b w =
      (ok_message (''tuning cache entry reset for model '' @ ref), w') \<and>
    w_sup w' = w_sup w \<and> w_residents w' = w_residents w \<and> w_running w' = w_running w"
proof -
  have "(s_tuned (w_sup w))(ref := None) = s_tuned (w_sup w)" using assms(4) by auto
  with assms show ?thesis
    by (simp add: handleV1TuningReset_def Let_def reset_target_def Evict_def drop_entry_def)
qed

theorem ambiguous_reset_is_noop_witness:
  "\<exists>w'. handleV1TuningReset sample_machine (\<lambda>_. None) (\<lambda>_ w. w) True (\<lambda>k. if k = ''model'' then ''big'' else []) None
      at_rest = (ok_message ''tuning cache entry reset for model big'', w') \<and> w_sup w' = two"
proof -
  let ?q = "\<lambda>k. if k = ''model'' then ''big'' else []"
  have ref: "reset_ref ?q None = ''big''" by (simp add: reset_ref_def)
  have "resolveModel (\<lambda>_. None) (w_sup at_rest) ''big'' = Inl (AmbiguousModelError ''big'' [''q4_0'', ''q8_0''])"
    "s_tuned (w_sup at_rest) ''big'' = None"
    by (simp_all add: at_rest_def resolveModel_def registry_of_def two_models_def)
  from ambiguous_reset_is_noop [OF ref _ this, of sample_machine "\<lambda>_ w. w" True] show ?thesis
    by (auto simp: at_rest_def)
qed

end
