(* ===== verification/Ollama_Shim.thy ===== *)
theory Ollama_Shim
  imports Registry
begin

text \<open>
  The Ollama-compatible endpoints, \<open>src/internal/supervisor/ollama.go\<close>: \<open>/api/version\<close>,
  \<open>/api/show\<close>, \<open>/api/ps\<close>, \<open>/api/embed\<close>, \<open>/api/chat\<close> and \<open>/api/generate\<close>, with \<open>keep_alive\<close>, the
  mapping of options and the translation of the event stream of the process. The exchange with
  the process, \<open>getOrLaunchInstance\<close>, the clock, the parsing of JSON text, \<open>time.ParseDuration\<close>
  and \<open>strconv.ParseFloat\<close> are arguments.
\<close>

section \<open>keep\_alive\<close>

text \<open>
  Rounding of an integer to 53 bits, to nearest and ties to even, and the \<open>float64\<close> of a JSON
  number; an integer beyond the range of \<open>float64\<close> does not decode.
\<close>

fun excess :: "nat \<Rightarrow> nat" where
  "excess n = (if n < 2 ^ 53 then 0 else Suc (excess (n div 2)))"

declare excess.simps [simp del]

definition round53 :: "nat \<Rightarrow> nat" where
  "round53 n =
     (let k = excess n; q = n div 2 ^ k; r = n mod 2 ^ k
      in (if 2 * r > 2 ^ k \<or> 2 * r = 2 ^ k \<and> odd q then q + 1 else q) * 2 ^ k)"

fun json_float :: "json \<Rightarrow> ieee option" where
  "json_float (JInt i) =
     (let m = round53 (nat \<bar>i\<bar>) in if m < 2 ^ 1024 then Some (FFin (i < 0) m 0) else None)"
| "json_float (JNum bits) = Some (ieee_of_bits 11 52 (unat bits))"
| "json_float _ = None"

fun float_negative :: "ieee \<Rightarrow> bool" where
  "float_negative (FFin neg m e) \<longleftrightarrow> neg \<and> 0 < m"
| "float_negative (FInf neg) \<longleftrightarrow> neg"
| "float_negative FNaN \<longleftrightarrow> False"

text \<open>
  \<open>time.Duration(f * float64(time.Second))\<close> for an \<open>f\<close> that is not negative: the product rounded
  to \<open>float64\<close>, then truncated. Out of range Go leaves the result to the implementation: \<open>ovf\<close>.
\<close>

definition seconds :: "duration \<Rightarrow> ieee \<Rightarrow> duration" where
  "seconds ovf f =
     (case f of
        FFin _ m e \<Rightarrow>
          (let n = float_trunc (round53 (m * 1000000000)) e in if n < 2 ^ 63 then int n else ovf)
      | _ \<Rightarrow> ovf)"

definition keep_seconds :: "duration \<Rightarrow> ieee \<Rightarrow> duration \<times> bool" where
  "keep_seconds ovf f = (if float_negative f then (- 1, True) else (seconds ovf f, True))"

definition parseKeepAlive ::
  "(string \<Rightarrow> duration option) \<Rightarrow> (string \<Rightarrow> ieee option) \<Rightarrow> duration \<Rightarrow> json option \<Rightarrow> duration \<times> bool"
where
  "parseKeepAlive ParseDuration ParseFloat ovf raw =
     (case raw of
        None \<Rightarrow> (0, False)
      | Some JNull \<Rightarrow> (0, False)
      | Some (JStr s) \<Rightarrow>
          (let s = TrimSpace s
           in if s = [] then (0, False)
              else if s = ''-1'' \<or> s = ''-1s'' then (- 1, True)
              else if s = ''0'' \<or> s = ''0s'' then (0, True)
              else (case ParseDuration s of
                      Some d \<Rightarrow> (d, True)
                    | None \<Rightarrow>
                        (case ParseFloat s of Some f \<Rightarrow> keep_seconds ovf f | None \<Rightarrow> (0, False))))
      | Some v \<Rightarrow> (case json_float v of Some f \<Rightarrow> keep_seconds ovf f | None \<Rightarrow> (0, False)))"

section \<open>Requests\<close>

text \<open>A list and a list of numbers, from an array; \<open>null\<close> is \<open>nil\<close>.\<close>

definition dec_list :: "(json \<Rightarrow> 'a option) \<Rightarrow> json \<Rightarrow> 'a list option \<Rightarrow> 'a list option option" where
  "dec_list f v a =
     (case v of
        JArr vs \<Rightarrow>
          (let xs = map f vs in if None \<in> set xs then None else Some (Some (map the xs)))
      | JNull \<Rightarrow> Some None
      | _ \<Rightarrow> None)"

definition decoded :: "'a list option \<Rightarrow> 'a list" where
  "decoded x = (case x of Some xs \<Rightarrow> xs | None \<Rightarrow> [])"

record ollamaMessage =
  msg_Role :: string
  msg_Content :: string

definition dec_message :: "json \<Rightarrow> ollamaMessage option" where
  "dec_message v =
     dec_struct (\<lambda>kvs. Option.bind (dec_field dec_str ''role'' [] kvs) (\<lambda>r.
        Option.bind (dec_field dec_str ''content'' [] kvs) (\<lambda>c. Some \<lparr>msg_Role = r, msg_Content = c\<rparr>))) v"

record ollamaRequest =
  rq_Model :: string
  rq_Messages :: "ollamaMessage list"
  rq_Stream :: "bool option"
  rq_Options :: "json option"
  rq_KeepAlive :: "json option"

definition ollamaChatRequest :: "json \<Rightarrow> ollamaRequest option" where
  "ollamaChatRequest b =
     dec_struct (\<lambda>kvs.
       Option.bind (dec_field dec_str ''model'' [] kvs) (\<lambda>m.
       Option.bind (dec_field (dec_list dec_message) ''messages'' None kvs) (\<lambda>ms.
       Option.bind (dec_field dec_bool_ptr ''stream'' None kvs) (\<lambda>st.
       Option.bind (dec_field dec_raw ''options'' None kvs) (\<lambda>os.
       Option.bind (dec_field dec_raw ''keep_alive'' None kvs) (\<lambda>ka.
         Some \<lparr>rq_Model = m, rq_Messages = decoded ms, rq_Stream = st, rq_Options = os, rq_KeepAlive = ka\<rparr>)))))) b"

text \<open>The messages of a \<open>/api/generate\<close> request: the system prompt, if any, and the prompt.\<close>

definition generate_messages :: "string \<Rightarrow> string \<Rightarrow> ollamaMessage list" where
  "generate_messages system prompt =
     (if system \<noteq> [] then [\<lparr>msg_Role = ''system'', msg_Content = system\<rparr>] else []) @
     [\<lparr>msg_Role = ''user'', msg_Content = prompt\<rparr>]"

definition ollamaGenerateRequest :: "json \<Rightarrow> ollamaRequest option" where
  "ollamaGenerateRequest b =
     dec_struct (\<lambda>kvs.
       Option.bind (dec_field dec_str ''model'' [] kvs) (\<lambda>m.
       Option.bind (dec_field dec_str ''prompt'' [] kvs) (\<lambda>p.
       Option.bind (dec_field dec_str ''system'' [] kvs) (\<lambda>sy.
       Option.bind (dec_field dec_str ''template'' [] kvs) (\<lambda>_.
       Option.bind (dec_field (dec_list (\<lambda>v. dec_int v 0)) ''context'' None kvs) (\<lambda>_.
       Option.bind (dec_field dec_bool_ptr ''stream'' None kvs) (\<lambda>st.
       Option.bind (dec_field dec_raw ''options'' None kvs) (\<lambda>os.
       Option.bind (dec_field dec_raw ''keep_alive'' None kvs) (\<lambda>ka.
         Some \<lparr>rq_Model = m, rq_Messages = generate_messages sy p, rq_Stream = st, rq_Options = os,
               rq_KeepAlive = ka\<rparr>))))))))) b"

definition writeOllamaError :: "int \<Rightarrow> string \<Rightarrow> response" where
  "writeOllamaError st message = Reply st ''application/json'' [JObj [(''error'', JStr message)]]"

fun ollama_resolve_error :: "resolve_err \<Rightarrow> response" where
  "ollama_resolve_error (ModelNotFoundError ref) =
     writeOllamaError StatusNotFound (''model '' @ [CHR 0x27] @ ref @ [CHR 0x27] @ '' not found'')"
| "ollama_resolve_error (AmbiguousModelError name tags) =
     writeOllamaError StatusBadRequest
       (''model '' @ [CHR 0x27] @ name @ [CHR 0x27] @ '' is ambiguous; available tags: '' @ Join tags '', '')"

definition ollama_launch_error :: "go_error \<Rightarrow> response" where
  "ollama_launch_error err =
     (if is_Canceled err then Silent
      else writeOllamaError
             (if Error err = ''supervisor is closed'' then StatusServiceUnavailable else StatusInternalServerError)
             (Error err))"

definition ollama_proxy_error :: "go_error \<Rightarrow> response" where
  "ollama_proxy_error err =
     (if is_Canceled err then Silent
      else writeOllamaError StatusServiceUnavailable (''proxy error: '' @ Error err))"

section \<open>Version, show and ps\<close>

definition ollamaAPIVersion :: string where
  "ollamaAPIVersion = ''0.5.0''"

definition handleAPIVersion :: response where
  "handleAPIVersion = writeJSON StatusOK (JObj [(''version'', JStr ollamaAPIVersion)])"

text \<open>The body: \<^const>\<open>None\<close> when it is empty, which \<open>Decode\<close> reports as \<open>io.EOF\<close>.\<close>

definition ollamaShowRequest :: "json \<Rightarrow> (string \<times> string) option" where
  "ollamaShowRequest b =
     dec_struct (\<lambda>kvs. Option.bind (dec_field dec_str ''model'' [] kvs) (\<lambda>m.
        Option.bind (dec_field dec_str ''name'' [] kvs) (\<lambda>n. Some (m, n)))) b"

definition show_request :: "request_body option \<Rightarrow> (string \<times> string) option" where
  "show_request b =
     (case b of None \<Rightarrow> Some ([], []) | Some (Body v) \<Rightarrow> ollamaShowRequest v | Some _ \<Rightarrow> None)"

definition model_info :: "Model \<Rightarrow> (string \<rightharpoonup> json)" where
  "model_info m =
     (let info = [''general.architecture'' \<mapsto> JStr (m_Architecture m)]
      in if m_Architecture m \<noteq> []
         then info(m_Architecture m @ ''.context_length'' \<mapsto> JInt (uint (m_ContextLength m)),
                   m_Architecture m @ ''.block_count'' \<mapsto> JInt (uint (m_BlockCount m)))
         else info(''general.context_length'' \<mapsto> JInt (uint (m_ContextLength m))))"

text \<open>A map as a JSON object, its keys in order.\<close>

definition json_of_map :: "string list \<Rightarrow> (string \<rightharpoonup> json) \<Rightarrow> json" where
  "json_of_map ks f = JObj (List.map_filter (\<lambda>k. map_option (Pair k) (f k)) (sort (remdups ks)))"

definition show_response :: "Model \<Rightarrow> json" where
  "show_response m =
     (let parameters = (if m_ContextLength m > 0 then ''num_ctx '' @ FormatUint (m_ContextLength m) else [])
      in JObj [(''modelfile'', JStr (''FROM '' @ m_ID m)), (''parameters'', JStr parameters),
               (''template'', JStr []), (''details'', modelDetails m),
               (''model_info'', json_of_map [''general.architecture'', ''general.context_length'',
                  m_Architecture m @ ''.context_length'', m_Architecture m @ ''.block_count''] (model_info m))])"

definition handleAPIShow ::
  "(string \<Rightarrow> FileInfo option) \<Rightarrow> Supervisor \<Rightarrow> request_body option \<Rightarrow> response"
where
  "handleAPIShow stat s b =
     (case show_request b of
        None \<Rightarrow> writeOllamaError StatusBadRequest ''invalid request body''
      | Some (model, name) \<Rightarrow>
          (let ref = (if model = [] then name else model)
           in if ref = [] then writeOllamaError StatusBadRequest ''model name is required''
              else (case resolveModel stat s ref of
                      Inl (ModelNotFoundError r) \<Rightarrow> writeOllamaError StatusNotFound (resolve_Error (ModelNotFoundError r))
                    | Inl (AmbiguousModelError n ts) \<Rightarrow>
                        writeOllamaError StatusBadRequest (resolve_Error (AmbiguousModelError n ts))
                    | Inr m \<Rightarrow> writeJSON StatusOK (show_response m))))"

text \<open>An Instance whose Model is gone from the registry is shown under its ID.\<close>

definition model_of_id :: "Supervisor \<Rightarrow> string \<Rightarrow> Model" where
  "model_of_id s i =
     (case s_models s i of
        Some m \<Rightarrow> m
      | None \<Rightarrow> \<lparr>m_ID = i, m_Name = i, m_Tag = [], m_Path = [], m_Size = 0, m_ModTime = 0, m_Digest = [],
                 m_Architecture = [], m_ContextLength = 0, m_BlockCount = 0, m_Quantization = []\<rparr>)"

record ollamaPSModel =
  ps_Name :: string
  ps_Size :: int
  ps_Digest :: string
  ps_Details :: json
  ps_ExpiresAt :: time
  ps_SizeVRAM :: int
  ps_ContextLength :: u64
  ps_ActiveSlots :: int
  ps_MaxSlots :: int

definition ps_model :: "(nat \<Rightarrow> Allocation) \<Rightarrow> time \<Rightarrow> Supervisor \<Rightarrow> string \<Rightarrow> residentInstance \<Rightarrow> ollamaPSModel" where
  "ps_model alloc now s i ri =
     (let m = model_of_id s i; (active, max) = Occupancy ri; a = alloc (ri_inst ri)
      in \<lparr>ps_Name = m_ID m, ps_Size = m_Size m, ps_Digest = m_Digest m, ps_Details = modelDetails m,
          ps_ExpiresAt = ExpiresAt ri now,
          ps_SizeVRAM = (if VRAM a > 0 \<or> RAM a > 0 then VRAM a else m_Size m),
          ps_ContextLength =
            (case s_tuned s i of
               Some te \<Rightarrow> if te_ResultingCtx te > 0 then te_ResultingCtx te else m_ContextLength m
             | None \<Rightarrow> m_ContextLength m),
          ps_ActiveSlots = active, ps_MaxSlots = max\<rparr>)"

definition ps_models :: "(nat \<Rightarrow> Allocation) \<Rightarrow> time \<Rightarrow> world \<Rightarrow> ollamaPSModel list" where
  "ps_models alloc now w =
     sort_key ps_Name
       (List.map_filter (\<lambda>(i, a). map_option (ps_model alloc now (w_sup w) i) (w_residents w a)) (s_instances (w_sup w)))"

definition json_of_ps :: "ollamaPSModel \<Rightarrow> json" where
  "json_of_ps p =
     JObj [(''name'', JStr (ps_Name p)), (''model'', JStr (ps_Name p)), (''size'', JInt (ps_Size p)),
           (''digest'', JStr (ps_Digest p)), (''details'', ps_Details p), (''expires_at'', JTime (ps_ExpiresAt p)),
           (''size_vram'', JInt (ps_SizeVRAM p)), (''context_length'', JInt (uint (ps_ContextLength p))),
           (''active_slots'', JInt (ps_ActiveSlots p)), (''max_slots'', JInt (ps_MaxSlots p))]"

definition handleAPIPs :: "(nat \<Rightarrow> Allocation) \<Rightarrow> time \<Rightarrow> world \<Rightarrow> response" where
  "handleAPIPs alloc now w =
     writeJSON StatusOK (JObj [(''models'', JArr (map json_of_ps (ps_models alloc now w)))])"

section \<open>The request to the process\<close>

definition core_keys :: "string list" where
  "core_keys = [''model'', ''messages'', ''stream'', ''stream_options'']"

definition base_request :: "string \<Rightarrow> ollamaMessage list \<Rightarrow> (string \<rightharpoonup> json)" where
  "base_request modelID messages =
     [''model'' \<mapsto> JStr modelID,
      ''messages'' \<mapsto> JArr (map (\<lambda>m. JObj [(''content'', JStr (msg_Content m)), (''role'', JStr (msg_Role m))]) messages),
      ''stream'' \<mapsto> JBool True,
      ''stream_options'' \<mapsto> JObj [(''include_usage'', JBool True)]]"

definition set_option :: "(string \<rightharpoonup> json) \<Rightarrow> string \<times> json \<Rightarrow> (string \<rightharpoonup> json)" where
  "set_option req kv =
     (let (k, v) = kv
      in if k \<in> set core_keys then req
         else if k = ''num_predict'' then req(''max_tokens'' \<mapsto> v)
         else req(k \<mapsto> v))"

text \<open>
  The options as a map; \<open>order\<close> is the order in which a \<open>range\<close> visits its entries. Options that
  are no object are ignored.
\<close>

definition dec_options :: "json option \<Rightarrow> (string \<rightharpoonup> json)" where
  "dec_options raw = (case raw of Some (JObj kvs) \<Rightarrow> map_of (rev kvs) | _ \<Rightarrow> Map.empty)"

definition completion_request ::
  "string \<Rightarrow> ollamaMessage list \<Rightarrow> (string \<times> json) list \<Rightarrow> (string \<rightharpoonup> json)"
where
  "completion_request modelID messages order = foldl set_option (base_request modelID messages) order"

section \<open>The event stream\<close>

record openAIChunk =
  ch_Choices :: "(string \<times> string option) list"   \<comment> \<open>content and finish reason\<close>
  ch_Usage :: "(int \<times> int) option"               \<comment> \<open>prompt and completion tokens\<close>

definition dec_delta :: "json \<Rightarrow> string \<Rightarrow> string option" where
  "dec_delta v a =
     (case v of
        JObj kvs \<Rightarrow> Option.bind (dec_field dec_str ''role'' [] kvs) (\<lambda>_. dec_field dec_str ''content'' a kvs)
      | JNull \<Rightarrow> Some a
      | _ \<Rightarrow> None)"

definition dec_choice :: "json \<Rightarrow> (string \<times> string option) option" where
  "dec_choice v =
     dec_struct (\<lambda>kvs. Option.bind (dec_field dec_delta ''delta'' [] kvs) (\<lambda>c.
        Option.bind (dec_field dec_str_ptr ''finish_reason'' None kvs) (\<lambda>f. Some (c, f)))) v"

definition dec_usage :: "json \<Rightarrow> (int \<times> int) option \<Rightarrow> (int \<times> int) option option" where
  "dec_usage v a =
     (case v of
        JNull \<Rightarrow> Some None
      | JObj kvs \<Rightarrow>
          (let (p, c) = (case a of Some pc \<Rightarrow> pc | None \<Rightarrow> (0, 0))
           in Option.bind (dec_field dec_int ''prompt_tokens'' p kvs) (\<lambda>p'.
              Option.bind (dec_field dec_int ''completion_tokens'' c kvs) (\<lambda>c'. Some (Some (p', c')))))
      | _ \<Rightarrow> None)"

definition dec_chunk :: "json \<Rightarrow> openAIChunk option" where
  "dec_chunk v =
     dec_struct (\<lambda>kvs. Option.bind (dec_field (dec_list dec_choice) ''choices'' None kvs) (\<lambda>cs.
        Option.bind (dec_field dec_usage ''usage'' None kvs) (\<lambda>u.
          Some \<lparr>ch_Choices = decoded cs, ch_Usage = u\<rparr>))) v"

text \<open>
  What a line of the body is to the loop: nothing, the end mark, or a chunk. \<open>parse\<close> parses JSON
  text.
\<close>

datatype event = Skip | Done | Chunk openAIChunk

definition line_event :: "(string \<Rightarrow> json option) \<Rightarrow> string \<Rightarrow> event" where
  "line_event parse line =
     (let line = TrimSpace line
      in if line = [] \<or> \<not> HasPrefix line ''data: '' then Skip
         else let dataStr = TrimPrefix line ''data: ''
              in if dataStr = ''[DONE]'' then Done
                 else (case Option.bind (parse dataStr) dec_chunk of Some c \<Rightarrow> Chunk c | None \<Rightarrow> Skip))"

record stream_state =
  st_fullContent :: string
  st_finishReason :: string
  st_evalCount :: int
  st_promptEvalCount :: int
  st_firstTokenReceived :: bool
  st_promptEvalDuration :: duration
  st_evalStart :: time
  st_out :: "json list"
  st_tick :: nat

text \<open>
  The fixed circumstances of a loop: the mode, the endpoint, the reference, when the request was
  sent, and the clock, by the number of readings before.
\<close>

record stream_env =
  se_stream :: bool
  se_isChat :: bool
  se_modelRef :: string
  se_startTime :: time
  se_clock :: "nat \<Rightarrow> time"

definition intermediate_chunk :: "stream_env \<Rightarrow> time \<Rightarrow> string \<Rightarrow> json" where
  "intermediate_chunk c now content =
     JObj [(''model'', JStr (se_modelRef c)), (''created_at'', JTime now),
           (if se_isChat c
            then (''message'', JObj [(''role'', JStr ''assistant''), (''content'', JStr content)])
            else (''response'', JStr content)),
           (''done'', JBool False)]"

definition count_usage :: "openAIChunk \<Rightarrow> stream_state \<Rightarrow> stream_state" where
  "count_usage ch st =
     (case ch_Usage ch of
        None \<Rightarrow> st
      | Some (p, c) \<Rightarrow>
          (let st = (if p > 0 then st\<lparr>st_promptEvalCount := p\<rparr> else st)
           in if c > 0 then st\<lparr>st_evalCount := c\<rparr> else st))"

definition first_token :: "stream_env \<Rightarrow> stream_state \<Rightarrow> stream_state" where
  "first_token c st =
     (if st_firstTokenReceived st then st
      else st\<lparr>st_firstTokenReceived := True, st_promptEvalDuration := se_clock c (st_tick st) - se_startTime c,
              st_evalStart := se_clock c (st_tick st + 1), st_tick := st_tick st + 2\<rparr>)"

definition emit :: "stream_env \<Rightarrow> string \<Rightarrow> stream_state \<Rightarrow> stream_state" where
  "emit c content st =
     (if se_stream c
      then st\<lparr>st_out := st_out st @ [intermediate_chunk c (se_clock c (st_tick st)) content], st_tick := st_tick st + 1\<rparr>
      else st\<lparr>st_fullContent := st_fullContent st @ content\<rparr>)"

definition on_chunk :: "stream_env \<Rightarrow> openAIChunk \<Rightarrow> stream_state \<Rightarrow> stream_state" where
  "on_chunk c ch st =
     (let st = count_usage ch st
      in case ch_Choices ch of
           [] \<Rightarrow> st
         | (content, finish) # _ \<Rightarrow>
             (let st = (case finish of Some f \<Rightarrow> if f \<noteq> [] then st\<lparr>st_finishReason := f\<rparr> else st | None \<Rightarrow> st)
              in if content = [] then st
                 else let st = first_token c st;
                          st = (if ch_Usage ch = None then st\<lparr>st_evalCount := st_evalCount st + 1\<rparr> else st)
                      in emit c content st))"

text \<open>The loop over the lines: the state at its end, and how many lines it has scanned.\<close>

fun stream_loop ::
  "(string \<Rightarrow> json option) \<Rightarrow> stream_env \<Rightarrow> string list \<Rightarrow> nat \<Rightarrow> stream_state \<Rightarrow> stream_state \<times> nat"
where
  "stream_loop parse c [] k st = (st, k)"
| "stream_loop parse c (line # lines) k st =
     (case line_event parse line of
        Skip \<Rightarrow> stream_loop parse c lines (k + 1) st
      | Done \<Rightarrow> (st, k + 1)
      | Chunk ch \<Rightarrow> stream_loop parse c lines (k + 1) (on_chunk c ch st))"

text \<open>The body of a response: its lines, and what \<open>scanner.Err()\<close> returns after some of them.\<close>

record scan_body =
  sb_lines :: "string list"
  sb_err :: "nat \<Rightarrow> go_error option"

record final_info =
  fi_Content :: string
  fi_DoneReason :: string
  fi_TotalDuration :: duration
  fi_LoadDuration :: duration
  fi_PromptEvalCount :: int
  fi_PromptEvalDuration :: duration
  fi_EvalCount :: int
  fi_EvalDuration :: duration

definition final_chunk :: "stream_env \<Rightarrow> time \<Rightarrow> final_info \<Rightarrow> json" where
  "final_chunk c now f =
     JObj [(''model'', JStr (se_modelRef c)), (''created_at'', JTime now),
           (if se_isChat c
            then (''message'', JObj [(''role'', JStr ''assistant''), (''content'', JStr (fi_Content f))])
            else (''response'', JStr (fi_Content f))),
           (''done'', JBool True), (''done_reason'', JStr (fi_DoneReason f)),
           (''total_duration'', JInt (fi_TotalDuration f)), (''load_duration'', JInt (fi_LoadDuration f)),
           (''prompt_eval_count'', JInt (fi_PromptEvalCount f)),
           (''prompt_eval_duration'', JInt (fi_PromptEvalDuration f)), (''eval_count'', JInt (fi_EvalCount f)),
           (''eval_duration'', JInt (fi_EvalDuration f))]"

definition summary :: "stream_env \<Rightarrow> duration \<Rightarrow> stream_state \<Rightarrow> final_info \<times> time" where
  "summary c loadDuration st =
     (let k = st_tick st;
          total = se_clock c k - se_startTime c;
          (promptD, evalD, k) =
            (if st_firstTokenReceived st then (st_promptEvalDuration st, se_clock c (k + 1) - st_evalStart st, k + 2)
             else (total, 0, k + 1))
      in (\<lparr>fi_Content = (if se_stream c then [] else st_fullContent st),
           fi_DoneReason = (if st_finishReason st = [] then ''stop'' else st_finishReason st),
           fi_TotalDuration = total, fi_LoadDuration = loadDuration,
           fi_PromptEvalCount = st_promptEvalCount st, fi_PromptEvalDuration = promptD,
           fi_EvalCount = st_evalCount st, fi_EvalDuration = evalD\<rparr>,
          se_clock c k))"

definition initial_stream :: "time \<Rightarrow> nat \<Rightarrow> stream_state" where
  "initial_stream evalStart tick =
     \<lparr>st_fullContent = [], st_finishReason = [], st_evalCount = 0, st_promptEvalCount = 0,
      st_firstTokenReceived = False, st_promptEvalDuration = 0, st_evalStart = evalStart, st_out = [], st_tick = tick\<rparr>"

text \<open>From the answer of the process to the response; \<open>flush\<close>: the writer is an \<open>http.Flusher\<close>.\<close>

definition relay ::
  "(string \<Rightarrow> json option) \<Rightarrow> bool \<Rightarrow> stream_env \<Rightarrow> duration \<Rightarrow> nat \<Rightarrow> scan_body \<Rightarrow> response"
where
  "relay parse flush c loadDuration tick b =
     (if se_stream c \<and> \<not> flush then writeOllamaError StatusInternalServerError ''streaming unsupported''
      else
        (let (st, k) = stream_loop parse c (sb_lines b) 0 (initial_stream (se_clock c tick) (tick + 1))
         in case (if se_stream c then None else sb_err b k) of
              Some err \<Rightarrow>
                writeOllamaError StatusInternalServerError (''stream scanner error: '' @ Error err)
            | None \<Rightarrow>
                (let (f, now) = summary c loadDuration st
                 in if se_stream c then Reply StatusOK ''application/x-ndjson'' (st_out st @ [final_chunk c now f])
                    else Reply StatusOK ''application/json'' [final_chunk c now f])))"

section \<open>Completions\<close>

text \<open>What comes of the exchange with the process.\<close>

datatype 'b exchange =
    MarshalFails
  | RequestFails
  | SendFails go_error
  | Answers int string
  | AnswersOK 'b

text \<open>What a handler does when it returns, in order.\<close>

datatype deferred = Releases | StartsDrain nat

text \<open>
  The parts of the environment: \<open>env_get\<close> is \<open>getOrLaunchInstance\<close>, \<open>env_send\<close> the exchange, and the
  others functions of the standard library.
\<close>

record 'b shim_env =
  env_stat :: "string \<Rightarrow> FileInfo option"
  env_keep :: "json option \<Rightarrow> duration \<times> bool"
  env_get :: "Model \<Rightarrow> world \<Rightarrow> (go_error, nat) res \<times> world"
  env_send :: "nat \<Rightarrow> (string \<rightharpoonup> json) \<Rightarrow> 'b exchange"
  env_parse :: "string \<Rightarrow> json option"
  env_clock :: "nat \<Rightarrow> time"
  env_flush :: bool

definition keep_alive_ttl :: "'b shim_env \<Rightarrow> Model \<Rightarrow> json option \<Rightarrow> world \<Rightarrow> world" where
  "keep_alive_ttl E model raw w =
     (let (ttl, ok) = env_keep E raw
      in if ok \<and> ttl \<noteq> 0 then snd (SetModelTTL (env_stat E) (env_clock E 0) (m_ID model) ttl w) else w)"

definition drain_after :: "'b shim_env \<Rightarrow> Model \<Rightarrow> json option \<Rightarrow> world \<Rightarrow> nat option" where
  "drain_after E model raw w =
     (let (ttl, ok) = env_keep E raw
      in if ok \<and> ttl = 0 then map_of (s_instances (w_sup w)) (m_ID model) else None)"

definition serveOllamaCompletion ::
  "scan_body shim_env \<Rightarrow> (string \<times> json) list \<Rightarrow> string \<Rightarrow> ollamaMessage list \<Rightarrow> json option \<Rightarrow> bool \<Rightarrow> bool \<Rightarrow>
     world \<Rightarrow> response \<times> deferred list \<times> world"
where
  "serveOllamaCompletion E order modelRef messages rawKeepAlive stream isChat w =
     (case resolveModel (env_stat E) (w_sup w) modelRef of
        Inl err \<Rightarrow> (ollama_resolve_error err, [], w)
      | Inr model \<Rightarrow>
          (case env_get E model (keep_alive_ttl E model rawKeepAlive w) of
             (Inl err, w) \<Rightarrow> (ollama_launch_error err, [], w)
           | (Inr inst, w) \<Rightarrow>
               (let loadDuration = env_clock E 2 - env_clock E 1;
                    atEnd = (case drain_after E model rawKeepAlive w of Some a \<Rightarrow> [StartsDrain a, Releases] | None \<Rightarrow> [Releases]);
                    c = \<lparr>se_stream = stream, se_isChat = isChat, se_modelRef = modelRef,
                         se_startTime = env_clock E 3, se_clock = env_clock E\<rparr>
                in (case env_send E inst (completion_request (m_ID model) messages order) of
                      MarshalFails \<Rightarrow> writeOllamaError StatusInternalServerError ''failed to serialize request''
                    | RequestFails \<Rightarrow> writeOllamaError StatusInternalServerError ''failed to create child request''
                    | SendFails err \<Rightarrow> ollama_proxy_error err
                    | Answers st b \<Rightarrow> writeOllamaError st b
                    | AnswersOK b \<Rightarrow> relay (env_parse E) (env_flush E) c loadDuration 4 b,
                    atEnd, w))))"

definition stream_flag :: "bool option \<Rightarrow> bool" where
  "stream_flag p = (case p of Some b \<Rightarrow> b | None \<Rightarrow> True)"

text \<open>\<open>ranges\<close> gives the order in which the map of the options is visited.\<close>

definition handle_completion ::
  "(json \<Rightarrow> ollamaRequest option) \<Rightarrow> bool \<Rightarrow> scan_body shim_env \<Rightarrow> ((string \<rightharpoonup> json) \<Rightarrow> (string \<times> json) list) \<Rightarrow>
     request_body \<Rightarrow> world \<Rightarrow> response \<times> deferred list \<times> world"
where
  "handle_completion dec isChat E ranges b w =
     (case b of
        ReadFails \<Rightarrow> (writeOllamaError StatusBadRequest ''failed to read request body'', [], w)
      | NotJSON \<Rightarrow> (writeOllamaError StatusBadRequest ''invalid request body'', [], w)
      | Body v \<Rightarrow>
          (case dec v of
             None \<Rightarrow> (writeOllamaError StatusBadRequest ''invalid request body'', [], w)
           | Some req \<Rightarrow>
               if rq_Model req = [] then (writeOllamaError StatusBadRequest ''invalid request body'', [], w)
               else serveOllamaCompletion E (ranges (dec_options (rq_Options req))) (rq_Model req) (rq_Messages req)
                      (rq_KeepAlive req) (stream_flag (rq_Stream req)) isChat w))"

definition handleAPIChat ::
  "scan_body shim_env \<Rightarrow> ((string \<rightharpoonup> json) \<Rightarrow> (string \<times> json) list) \<Rightarrow> request_body \<Rightarrow> world \<Rightarrow>
     response \<times> deferred list \<times> world"
where
  "handleAPIChat E ranges b w = handle_completion ollamaChatRequest True E ranges b w"

definition handleAPIGenerate ::
  "scan_body shim_env \<Rightarrow> ((string \<rightharpoonup> json) \<Rightarrow> (string \<times> json) list) \<Rightarrow> request_body \<Rightarrow> world \<Rightarrow>
     response \<times> deferred list \<times> world"
where
  "handleAPIGenerate E ranges b w = handle_completion ollamaGenerateRequest False E ranges b w"

section \<open>Embeddings\<close>

record ollamaEmbedRequest =
  em_Model :: string
  em_Input :: "json option"
  em_Prompt :: "json option"
  em_KeepAlive :: "json option"

definition dec_embedRequest :: "json \<Rightarrow> ollamaEmbedRequest option" where
  "dec_embedRequest b =
     dec_struct (\<lambda>kvs.
       Option.bind (dec_field dec_str ''model'' [] kvs) (\<lambda>m.
       Option.bind (dec_field dec_any ''input'' None kvs) (\<lambda>i.
       Option.bind (dec_field dec_any ''prompt'' None kvs) (\<lambda>p.
       Option.bind (dec_field dec_raw ''keep_alive'' None kvs) (\<lambda>ka.
         Some \<lparr>em_Model = m, em_Input = i, em_Prompt = p, em_KeepAlive = ka\<rparr>))))) b"

text \<open>A number of an embedding stands for itself; \<open>null\<close> leaves the zero.\<close>

definition dec_number :: "json \<Rightarrow> json option" where
  "dec_number v = (if v = JNull then Some (JInt 0) else if json_float v = None then None else Some v)"

definition dec_embedding :: "json \<Rightarrow> json list option option" where
  "dec_embedding v =
     dec_struct (\<lambda>kvs. Option.bind (dec_field dec_int ''index'' 0 kvs) (\<lambda>_.
        dec_field (dec_list dec_number) ''embedding'' None kvs)) v"

definition dec_embeddings :: "json \<Rightarrow> json list option list option" where
  "dec_embeddings v =
     dec_struct (\<lambda>kvs. map_option decoded (dec_field (dec_list dec_embedding) ''data'' None kvs)) v"

definition json_of_embedding :: "json list option \<Rightarrow> json" where
  "json_of_embedding e = (case e of Some xs \<Rightarrow> JArr xs | None \<Rightarrow> JNull)"

definition embed_response :: "string \<Rightarrow> string \<Rightarrow> json list option list \<Rightarrow> response" where
  "embed_response path ref es =
     (if path = ''/api/embeddings'' then
        writeJSON StatusOK (JObj [(''embedding'', case es of e # _ \<Rightarrow> json_of_embedding e | [] \<Rightarrow> JArr [])])
      else
        writeJSON StatusOK (JObj [(''embeddings'', JArr (map json_of_embedding es)), (''model'', JStr ref)]))"

definition embed_request :: "string \<Rightarrow> json option \<Rightarrow> json option \<Rightarrow> (string \<rightharpoonup> json)" where
  "embed_request modelID input prompt =
     (let v = (case input of Some i \<Rightarrow> i | None \<Rightarrow> (case prompt of Some p \<Rightarrow> p | None \<Rightarrow> JNull))
      in [''model'' \<mapsto> JStr modelID, ''input'' \<mapsto> v])"

text \<open>The answer of the process is JSON, or text that does not parse: \<^const>\<open>None\<close>.\<close>

definition serve_embed ::
  "json option shim_env \<Rightarrow> string \<Rightarrow> ollamaEmbedRequest \<Rightarrow> world \<Rightarrow> response \<times> deferred list \<times> world"
where
  "serve_embed E path req w =
     (case resolveModel (env_stat E) (w_sup w) (em_Model req) of
        Inl err \<Rightarrow> (ollama_resolve_error err, [], w)
      | Inr model \<Rightarrow>
          (case env_get E model (keep_alive_ttl E model (em_KeepAlive req) w) of
             (Inl err, w) \<Rightarrow> (ollama_launch_error err, [], w)
           | (Inr inst, w) \<Rightarrow>
               (let atEnd = (case drain_after E model (em_KeepAlive req) w of
                               Some a \<Rightarrow> [Releases, StartsDrain a] | None \<Rightarrow> [Releases])
                in (case env_send E inst (embed_request (m_ID model) (em_Input req) (em_Prompt req)) of
                      MarshalFails \<Rightarrow> writeOllamaError StatusInternalServerError ''failed to serialize request''
                    | RequestFails \<Rightarrow> writeOllamaError StatusInternalServerError ''failed to create child request''
                    | SendFails err \<Rightarrow> ollama_proxy_error err
                    | Answers st b \<Rightarrow> writeOllamaError st b
                    | AnswersOK b \<Rightarrow>
                        (case Option.bind b dec_embeddings of
                           None \<Rightarrow> writeOllamaError StatusInternalServerError ''failed to decode child response''
                         | Some es \<Rightarrow> embed_response path (em_Model req) es),
                    atEnd, w))))"

definition handleAPIEmbed ::
  "json option shim_env \<Rightarrow> string \<Rightarrow> request_body \<Rightarrow> world \<Rightarrow> response \<times> deferred list \<times> world"
where
  "handleAPIEmbed E path b w =
     (case b of
        ReadFails \<Rightarrow> (writeOllamaError StatusBadRequest ''failed to read request body'', [], w)
      | NotJSON \<Rightarrow> (writeOllamaError StatusBadRequest ''invalid request body'', [], w)
      | Body v \<Rightarrow>
          (case dec_embedRequest v of
             None \<Rightarrow> (writeOllamaError StatusBadRequest ''invalid request body'', [], w)
           | Some req \<Rightarrow>
               if em_Model req = [] then (writeOllamaError StatusBadRequest ''invalid request body'', [], w)
               else serve_embed E path req w))"

section \<open>Lemmas\<close>

text \<open>Rounding leaves a number alone whose 53 leading bits carry all of it.\<close>

lemma excess_le: "n div 2 ^ k < 2 ^ 53 \<Longrightarrow> excess n \<le> k"
proof (induction k arbitrary: n)
  case 0
  then show ?case by (simp add: excess.simps)
next
  case (Suc k)
  have "n div 2 div 2 ^ k < 2 ^ 53" using Suc.prems by (simp add: div_mult2_eq [symmetric])
  from Suc.IH [OF this] show ?case by (subst excess.simps) simp
qed

lemma round53_exact:
  assumes "q < 2 ^ 53"
  shows "round53 (q * 2 ^ k) = q * 2 ^ k"
proof -
  have "excess (q * 2 ^ k) \<le> k" using assms by (intro excess_le) simp
  then have "2 ^ excess (q * 2 ^ k) dvd q * (2 ^ k :: nat)" by (simp add: le_imp_power_dvd)
  then have "q * 2 ^ k mod 2 ^ excess (q * 2 ^ k) = 0"
    "q * 2 ^ k div 2 ^ excess (q * 2 ^ k) * 2 ^ excess (q * 2 ^ k) = q * 2 ^ k"
    by (simp_all add: dvd_div_mult_self)
  then show ?thesis by (simp add: round53_def Let_def)
qed

lemma round53_small: "n < 2 ^ 53 \<Longrightarrow> round53 n = n"
  using round53_exact [of n 0] by simp

lemma seconds_int:
  assumes "n \<le> 4611686018"
  shows "seconds ovf (FFin neg n 0) = int n * 1000000000"
proof -
  have p: "n * 1000000000 = (n * 1953125) * 2 ^ 9" by simp
  have "round53 (n * 1000000000) = n * 1000000000"
    unfolding p using assms by (intro round53_exact) simp
  with assms show ?thesis by (simp add: seconds_def float_trunc_def)
qed


text \<open>The text a chunk of a response carries.\<close>

fun str_of :: "json option \<Rightarrow> string" where
  "str_of (Some (JStr s)) = s"
| "str_of _ = []"

definition chunk_content :: "json \<Rightarrow> string" where
  "chunk_content j =
     (case member ''message'' j of
        Some m \<Rightarrow> str_of (member ''content'' m)
      | None \<Rightarrow> str_of (member ''response'' j))"

lemma chunk_content_simps [simp]:
  "chunk_content (intermediate_chunk c now t) = t"
  "chunk_content (final_chunk c now f) = fi_Content f"
  "member ''done'' (intermediate_chunk c now t) = Some (JBool False)"
  "member ''done'' (final_chunk c now f) = Some (JBool True)"
  "member ''done_reason'' (final_chunk c now f) = Some (JStr (fi_DoneReason f))"
  "member ''eval_count'' (final_chunk c now f) = Some (JInt (fi_EvalCount f))"
  "member ''prompt_eval_count'' (final_chunk c now f) = Some (JInt (fi_PromptEvalCount f))"
  by (simp_all add: chunk_content_def intermediate_chunk_def final_chunk_def)

text \<open>The state of a streaming loop beside that of a collecting one.\<close>

definition in_step :: "stream_state \<Rightarrow> stream_state \<Rightarrow> bool" where
  "in_step a b \<longleftrightarrow>
     st_fullContent b = concat (map chunk_content (st_out a)) \<and> st_finishReason b = st_finishReason a \<and>
     st_evalCount b = st_evalCount a \<and> st_promptEvalCount b = st_promptEvalCount a \<and>
     (\<forall>j \<in> set (st_out a). member ''done'' j = Some (JBool False))"

lemma in_step_initial: "in_step (initial_stream t k) (initial_stream t' k')"
  by (simp add: in_step_def initial_stream_def)

lemma in_step_chunk:
  assumes "in_step a b" "se_stream c" "\<not> se_stream d"
  shows "in_step (on_chunk c ch a) (on_chunk d ch b)"
proof -
  have u: "in_step (count_usage ch a) (count_usage ch b)"
    using assms(1) by (auto simp: in_step_def count_usage_def Let_def split: option.split prod.split)
  have f: "in_step (first_token c x) (first_token d y)" if "in_step x y" for x y
    using that by (auto simp: in_step_def first_token_def)
  have e: "in_step (emit c t x) (emit d t y)" if "in_step x y" for t x y
    using that assms(2,3) by (auto simp: in_step_def emit_def)
  have r: "in_step (x\<lparr>st_finishReason := g\<rparr>) (y\<lparr>st_finishReason := g\<rparr>)" if "in_step x y" for g x y
    using that by (simp add: in_step_def)
  have n: "in_step (x\<lparr>st_evalCount := st_evalCount x + 1\<rparr>) (y\<lparr>st_evalCount := st_evalCount y + 1\<rparr>)"
    if "in_step x y" for x y
    using that by (simp add: in_step_def)
  show ?thesis
    using u by (auto simp: on_chunk_def Let_def intro!: e f r n split: list.split option.split)
qed

lemma in_step_loop:
  assumes "in_step a b" "se_stream c" "\<not> se_stream d"
  shows "in_step (fst (stream_loop parse c ls k a)) (fst (stream_loop parse d ls k b)) \<and>
    snd (stream_loop parse c ls k a) = snd (stream_loop parse d ls k b)"
  using assms
proof (induction ls arbitrary: k a b)
  case (Cons l ls)
  then show ?case by (cases "line_event parse l") (auto intro: in_step_chunk)
qed simp

text \<open>Without the end mark the loop scans every line, and without a reason it keeps none.\<close>

lemma loop_scans_all:
  assumes "\<And>l. l \<in> set ls \<Longrightarrow> line_event parse l \<noteq> Done"
  shows "snd (stream_loop parse c ls k st) = k + length ls"
  using assms
proof (induction ls arbitrary: k st)
  case (Cons l ls)
  then show ?case by (cases "line_event parse l") auto
qed simp

text \<open>
  A whole answer: the texts and the reasons of its chunks, in order, and the lines of an event stream
  that sends it, with an empty line after each event.
\<close>

definition answer_texts :: "openAIChunk list \<Rightarrow> string list" where
  "answer_texts chs = filter (\<lambda>t. t \<noteq> []) (concat (map (\<lambda>ch. map fst (take 1 (ch_Choices ch))) chs))"

definition answer_reasons :: "openAIChunk list \<Rightarrow> string list" where
  "answer_reasons chs =
     filter (\<lambda>f. f \<noteq> []) (List.map_filter snd (concat (map (\<lambda>ch. take 1 (ch_Choices ch)) chs)))"

definition event_lines :: "string list \<Rightarrow> string list" where
  "event_lines ts = concat (map (\<lambda>t. [''data: '' @ t, []]) ts)"

text \<open>A text that a server sends as the data of an event: no spaces around it, and not the end mark.\<close>

definition event_text :: "string \<Rightarrow> bool" where
  "event_text t \<longleftrightarrow> t \<noteq> [] \<and> \<not> is_space (last t) \<and> t \<noteq> ''[DONE]''"

lemma event_text_line:
  assumes "event_text t"
  shows "line_event parse (''data: '' @ t) =
    (case Option.bind (parse t) dec_chunk of Some c \<Rightarrow> Chunk c | None \<Rightarrow> Skip)"
proof -
  obtain u x where t: "t = u @ [x]" "\<not> is_space x" using assms by (cases t rule: rev_cases) (auto simp: event_text_def)
  have "\<not> is_space (CHR ''d'')" by (simp add: is_space_def)
  then have "TrimSpace (''data: '' @ t) = ''data: '' @ t" using t(2) by (simp add: TrimSpace_def t(1))
  then show ?thesis using assms by (simp add: line_event_def HasPrefix_def TrimPrefix_def event_text_def)
qed

lemma end_events: "line_event parse [] = Skip" "line_event parse ''data: [DONE]'' = Done"
  by (simp_all add: line_event_def TrimSpace_def is_space_def HasPrefix_def TrimPrefix_def)

lemma loop_events:
  assumes "\<forall>t \<in> set ts. event_text t" "map (\<lambda>t. Option.bind (parse t) dec_chunk) ts = map Some chs"
  shows "stream_loop parse c (event_lines ts @ ''data: [DONE]'' # junk) k st =
    (fold (on_chunk c) chs st, k + 2 * length ts + 1)"
  using assms
proof (induction ts arbitrary: chs k st)
  case Nil
  then show ?case by (simp add: event_lines_def end_events)
next
  case (Cons t ts)
  obtain ch chs' where chs: "chs = ch # chs'" "Option.bind (parse t) dec_chunk = Some ch"
    "map (\<lambda>t. Option.bind (parse t) dec_chunk) ts = map Some chs'"
    using Cons.prems(2) by (cases chs) auto
  have e: "line_event parse (''data: '' @ t) = Chunk ch"
    using event_text_line [of t parse] Cons.prems(1) chs(2) by simp
  have "stream_loop parse c (event_lines (t # ts) @ ''data: [DONE]'' # junk) k st =
      stream_loop parse c (event_lines ts @ ''data: [DONE]'' # junk) (k + 2) (on_chunk c ch st)"
    using e by (simp add: event_lines_def end_events)
  also have "\<dots> = (fold (on_chunk c) chs' (on_chunk c ch st), k + 2 + 2 * length ts + 1)"
    using Cons.prems(1) by (intro Cons.IH chs(3)) simp
  finally show ?case by (simp add: chs(1))
qed

text \<open>What a chunk does to the state of the loop.\<close>

lemma on_chunk_effect:
  "se_stream c \<Longrightarrow> map chunk_content (st_out (on_chunk c ch st)) = map chunk_content (st_out st) @ answer_texts [ch]"
  "st_finishReason (on_chunk c ch st) = last (st_finishReason st # answer_reasons [ch])"
  "ch_Usage ch = None \<Longrightarrow> st_evalCount (on_chunk c ch st) = st_evalCount st + int (length (answer_texts [ch]))"
  "ch_Usage ch = None \<Longrightarrow> st_promptEvalCount (on_chunk c ch st) = st_promptEvalCount st"
  by (auto simp: on_chunk_def count_usage_def first_token_def emit_def answer_texts_def answer_reasons_def Let_def
      List.map_filter_def split: list.splits option.splits prod.splits)

lemma answer_Cons:
  "answer_texts (ch # chs) = answer_texts [ch] @ answer_texts chs"
  "answer_reasons (ch # chs) = answer_reasons [ch] @ answer_reasons chs"
  by (simp_all add: answer_texts_def answer_reasons_def List.map_filter_def)

lemma fold_chunks:
  "se_stream c \<Longrightarrow> map chunk_content (st_out (fold (on_chunk c) chs st)) = map chunk_content (st_out st) @ answer_texts chs"
  "st_finishReason (fold (on_chunk c) chs st) = last (st_finishReason st # answer_reasons chs)"
  "\<forall>ch \<in> set chs. ch_Usage ch = None \<Longrightarrow>
     st_evalCount (fold (on_chunk c) chs st) = st_evalCount st + int (length (answer_texts chs)) \<and>
     st_promptEvalCount (fold (on_chunk c) chs st) = st_promptEvalCount st"
proof (induction chs arbitrary: st)
  case (Cons ch chs)
  {
    case 1
    then show ?case by (simp add: Cons.IH(1) on_chunk_effect(1) answer_Cons(1) [of ch chs])
  next
    case 2
    then show ?case by (auto simp: Cons.IH(2) on_chunk_effect(2) answer_Cons(2) [of ch chs])
  next
    case 3
    then show ?case by (simp add: Cons.IH(3) on_chunk_effect(3,4) answer_Cons(1) [of ch chs])
  }
qed (simp_all add: answer_texts_def answer_reasons_def)

section \<open>Properties\<close>

text \<open>
  C5. Streaming and collecting agree: for the same answer of the process, read without error, the
  texts of the streamed chunks put together are the text of the single response, and reason and
  token counts are the same. Every streamed chunk but the last says \<open>done: false\<close>, the last and the
  single response say \<open>done: true\<close>.
\<close>

theorem stream_equals_collected:
  assumes "se_stream c" "\<And>k. sb_err b k = None"
  shows "\<exists>out final single.
    relay parse True c ld tick b = Reply StatusOK ''application/x-ndjson'' (out @ [final]) \<and>
    relay parse fl (c\<lparr>se_stream := False\<rparr>) ld tick b = Reply StatusOK ''application/json'' [single] \<and>
    concat (map chunk_content (out @ [final])) = chunk_content single \<and>
    (\<forall>k \<in> {''done'', ''done_reason'', ''eval_count'', ''prompt_eval_count''}. member k final = member k single) \<and>
    (\<forall>j \<in> set out. member ''done'' j = Some (JBool False)) \<and> member ''done'' final = Some (JBool True)"
proof -
  let ?d = "c\<lparr>se_stream := False\<rparr>"
  let ?i = "initial_stream (se_clock c tick) (tick + 1)"
  obtain a k where a: "stream_loop parse c (sb_lines b) 0 ?i = (a, k)" by fastforce
  obtain a' k' where a': "stream_loop parse ?d (sb_lines b) 0 ?i = (a', k')" by fastforce
  have s: "in_step a a'"
    using in_step_loop [of ?i ?i c ?d parse "sb_lines b" 0] in_step_initial assms(1) a a' by simp
  obtain f n where f: "summary c ld a = (f, n)" by fastforce
  obtain f' n' where f': "summary ?d ld a' = (f', n')" by fastforce
  have r: "relay parse True c ld tick b = Reply StatusOK ''application/x-ndjson'' (st_out a @ [final_chunk c n f])"
    "relay parse fl ?d ld tick b = Reply StatusOK ''application/json'' [final_chunk ?d n' f']"
    using assms a a' f f' by (simp_all add: relay_def)
  have "fi_Content f = []" "fi_Content f' = st_fullContent a'" "fi_DoneReason f = fi_DoneReason f'"
    "fi_EvalCount f = fi_EvalCount f'" "fi_PromptEvalCount f = fi_PromptEvalCount f'"
    using f f' s assms(1) by (auto simp: summary_def in_step_def Let_def split: if_splits)
  with s show ?thesis
    by (intro exI [of _ "st_out a"] exI [of _ "final_chunk c n f"] exI [of _ "final_chunk ?d n' f'"])
       (simp add: r in_step_def)
qed

text \<open>A whole answer through the loop and out of it, streamed or collected.\<close>

lemma relay_answer:
  assumes "sb_lines b = event_lines ts @ ''data: [DONE]'' # junk" "sb_err b (2 * length ts + 1) = None"
    and "\<forall>t \<in> set ts. event_text t" "map (\<lambda>t. Option.bind (parse t) dec_chunk) ts = map Some (chs @ usage)"
    and "\<forall>ch \<in> set chs. ch_Usage ch = None"
    and "usage = [] \<and> u = (0, int (length (answer_texts chs))) \<or>
      usage = [\<lparr>ch_Choices = [], ch_Usage = Some u\<rparr>] \<and> 0 < fst u \<and> 0 < snd u"
  shows "\<exists>out final.
    relay parse True c ld tick b =
      Reply StatusOK (if se_stream c then ''application/x-ndjson'' else ''application/json'') (out @ [final]) \<and>
    map chunk_content (out @ [final]) =
      (if se_stream c then answer_texts chs @ [[]] else [concat (answer_texts chs)]) \<and>
    (\<forall>j \<in> set out. member ''done'' j = Some (JBool False)) \<and> member ''done'' final = Some (JBool True) \<and>
    member ''done_reason'' final =
      Some (JStr (if answer_reasons chs = [] then ''stop'' else last (answer_reasons chs))) \<and>
    member ''prompt_eval_count'' final = Some (JInt (fst u)) \<and> member ''eval_count'' final = Some (JInt (snd u))"
proof -
  let ?i = "initial_stream (se_clock c tick) (Suc tick)"
  let ?last = "\<lambda>d. fold (on_chunk d) (chs @ usage) ?i"
  have loop: "stream_loop parse d (sb_lines b) 0 ?i = (?last d, 2 * length ts + 1)" for d
    unfolding assms(1) using loop_events [OF assms(3,4), of d junk 0 ?i] by simp
  have usage: "st_out (fold (on_chunk d) usage st) = st_out st" "st_fullContent (fold (on_chunk d) usage st) = st_fullContent st"
    "st_finishReason (fold (on_chunk d) usage st) = st_finishReason st"
    "usage \<noteq> [] \<Longrightarrow> st_promptEvalCount (fold (on_chunk d) usage st) = fst u \<and> st_evalCount (fold (on_chunk d) usage st) = snd u"
    for d st
    using assms(6) by (auto simp: on_chunk_def count_usage_def Let_def split: prod.splits)
  have texts: "map chunk_content (st_out (?last d)) = answer_texts chs" if "se_stream d" for d
    using fold_chunks(1) [OF that, of chs ?i] usage(1) by (simp add: initial_stream_def)
  have reason: "st_finishReason (?last d) = last ([] # answer_reasons chs)" for d
    using fold_chunks(2) [of d chs ?i] usage(3) by (simp add: initial_stream_def)
  have nonempty: "answer_reasons chs \<noteq> [] \<Longrightarrow> last (answer_reasons chs) \<noteq> []"
    using last_in_set [of "answer_reasons chs"] by (auto simp: answer_reasons_def)
  have counts: "st_promptEvalCount (?last d) = fst u" "st_evalCount (?last d) = snd u" for d
    using fold_chunks(3) [OF assms(5), of d ?i] usage(4) assms(6) by (cases "usage = []"; simp add: initial_stream_def)+
  have both: "in_step (?last (d\<lparr>se_stream := True\<rparr>)) (?last (d\<lparr>se_stream := False\<rparr>))" for d
    using in_step_loop [where a = ?i and b = ?i and c = "d\<lparr>se_stream := True\<rparr>" and d = "d\<lparr>se_stream := False\<rparr>"
      and parse = parse and ls = "sb_lines b" and k = 0] in_step_initial by (simp add: loop)
  have mode: "\<not> se_stream c \<Longrightarrow> c\<lparr>se_stream := False\<rparr> = c" "se_stream c \<Longrightarrow> c\<lparr>se_stream := True\<rparr> = c"
    by (cases c; simp)+
  have collected: "st_fullContent (?last c) = concat (answer_texts chs)" if "\<not> se_stream c"
    using both [of c] texts [of "c\<lparr>se_stream := True\<rparr>"] that by (simp add: in_step_def mode)
  have silent: "st_out (fold (on_chunk c) xs st) = st_out st" if "\<not> se_stream c" for xs st
    using that by (induction xs arbitrary: st)
      (auto simp: on_chunk_def count_usage_def first_token_def emit_def Let_def split: list.split option.split prod.split)
  have more: "\<forall>j \<in> set (st_out (?last c)). member ''done'' j = Some (JBool False)" "\<not> se_stream c \<Longrightarrow> st_out (?last c) = []"
    using both [of c] silent by (cases "se_stream c"; simp add: in_step_def initial_stream_def mode)+
  obtain f n where f: "summary c ld (?last c) = (f, n)" by fastforce
  then have final: "fi_Content f = (if se_stream c then [] else st_fullContent (?last c))"
    "fi_DoneReason f = (if answer_reasons chs = [] then ''stop'' else last (answer_reasons chs))"
    "fi_PromptEvalCount f = fst u" "fi_EvalCount f = snd u"
    using reason [of c] counts [of c] nonempty by (auto simp: summary_def Let_def split: if_splits)
  have "relay parse True c ld tick b =
      Reply StatusOK (if se_stream c then ''application/x-ndjson'' else ''application/json'')
        (st_out (?last c) @ [final_chunk c n f])"
    using assms(2) more(2) f by (simp add: relay_def loop)
  moreover have "map chunk_content (st_out (?last c) @ [final_chunk c n f]) =
      (if se_stream c then answer_texts chs @ [[]] else [concat (answer_texts chs)])"
    using texts [of c] collected more(2) by (simp add: final)
  ultimately show ?thesis
    using more(1) by (intro exI [of _ "st_out (?last c)"] exI [of _ "final_chunk c n f"]) (simp add: final)
qed


text \<open>An answer of one chunk, for examples.\<close>

definition hi_chunk :: json where
  "hi_chunk = JObj [(''choices'', JArr [JObj [(''delta'', JObj [(''content'', JStr ''hi'')])]])]"

definition hi_env :: stream_env where
  "hi_env = \<lparr>se_stream = True, se_isChat = True, se_modelRef = ''big'', se_startTime = 0, se_clock = int\<rparr>"

lemma hi_event: "line_event (\<lambda>_. Some hi_chunk) ''data: 1'' = Chunk \<lparr>ch_Choices = [(''hi'', None)], ch_Usage = None\<rparr>"
  by (simp add: line_event_def TrimSpace_def is_space_def HasPrefix_def TrimPrefix_def hi_chunk_def dec_chunk_def
      dec_field_def dec_list_def dec_choice_def dec_delta_def decoded_def EqualFold_def ToLower_def lower_char_def)

lemmas stream_defs = relay_def on_chunk_def count_usage_def first_token_def emit_def summary_def initial_stream_def
  Let_def

theorem stream_equals_collected_witness:
  "\<exists>out final. relay (\<lambda>_. Some hi_chunk) True hi_env 0 0 \<lparr>sb_lines = [''data: 1''], sb_err = \<lambda>_. None\<rparr> =
       Reply StatusOK ''application/x-ndjson'' (out @ [final]) \<and>
     concat (map chunk_content (out @ [final])) = ''hi''"
proof -
  let ?b = "\<lparr>sb_lines = [''data: 1''], sb_err = \<lambda>_. None\<rparr> :: scan_body"
  let ?p = "\<lambda>_. Some hi_chunk"
  obtain single where single:
    "relay ?p True (hi_env\<lparr>se_stream := False\<rparr>) 0 0 ?b = Reply StatusOK ''application/json'' [single]"
    "chunk_content single = ''hi''"
    by (simp add: stream_defs hi_event hi_env_def)
  have "se_stream hi_env" "\<And>k. sb_err ?b k = None" by (simp_all add: hi_env_def)
  from stream_equals_collected [OF this, where parse = ?p and fl = True and ld = 0 and tick = 0] single
  show ?thesis by auto
qed

text \<open>A chat about which the process says \<open>hi\<close>, then its usage.\<close>

definition usage_chunk :: json where
  "usage_chunk = JObj [(''choices'', JArr []),
     (''usage'', JObj [(''prompt_tokens'', JInt 3), (''completion_tokens'', JInt 1)])]"

definition hi_body :: scan_body where
  "hi_body = \<lparr>sb_lines = event_lines [''1'', ''2''] @ ''data: [DONE]'' # [''data: 1''], sb_err = \<lambda>_. None\<rparr>"

definition hi_shim :: "scan_body shim_env" where
  "hi_shim = \<lparr>env_stat = \<lambda>_. None, env_keep = \<lambda>_. (0, False), env_get = \<lambda>m w. (Inr 7, w),
     env_send = \<lambda>_ _. AnswersOK hi_body, env_parse = \<lambda>t. Some (if t = ''1'' then hi_chunk else usage_chunk),
     env_clock = int, env_flush = True\<rparr>"


text \<open>
  C40. A stream that breaks off is reported as complete: when reading the answer of the process
  fails before the end mark, the streaming response still ends with \<open>done: true\<close> and, if no reason
  came, \<open>done_reason: stop\<close>, under status 200; the client cannot tell it from a finished one. The
  collecting response reports the same failure as an error.
\<close>

theorem broken_stream_looks_complete:
  assumes "se_stream c" "sb_err b (length (sb_lines b)) = Some err"
    and "\<And>l. l \<in> set (sb_lines b) \<Longrightarrow> line_event parse l \<noteq> Done"
  shows "(\<exists>out final reason. relay parse True c ld tick b = Reply StatusOK ''application/x-ndjson'' (out @ [final]) \<and>
      member ''done'' final = Some (JBool True) \<and> member ''done_reason'' final = Some (JStr reason) \<and> reason \<noteq> []) \<and>
    relay parse fl (c\<lparr>se_stream := False\<rparr>) ld tick b =
      writeOllamaError StatusInternalServerError (''stream scanner error: '' @ Error err)"
proof
  obtain a k where a: "stream_loop parse c (sb_lines b) 0 (initial_stream (se_clock c tick) (tick + 1)) = (a, k)"
    by fastforce
  obtain f n where f: "summary c ld a = (f, n)" by fastforce
  have "fi_DoneReason f \<noteq> []" using f by (auto simp: summary_def Let_def split: if_splits)
  moreover have "relay parse True c ld tick b = Reply StatusOK ''application/x-ndjson'' (st_out a @ [final_chunk c n f])"
    using assms(1) a f by (simp add: relay_def)
  ultimately show "\<exists>out final reason. relay parse True c ld tick b = Reply StatusOK ''application/x-ndjson'' (out @ [final]) \<and>
      member ''done'' final = Some (JBool True) \<and> member ''done_reason'' final = Some (JStr reason) \<and> reason \<noteq> []"
    by (intro exI [of _ "st_out a"] exI [of _ "final_chunk c n f"]) simp
next
  obtain a k where a: "stream_loop parse (c\<lparr>se_stream := False\<rparr>) (sb_lines b) 0
      (initial_stream (se_clock c tick) (tick + 1)) = (a, k)"
    by fastforce
  then have "k = length (sb_lines b)" using loop_scans_all [OF assms(3)] by (metis add_0 snd_conv)
  with a assms(2) show "relay parse fl (c\<lparr>se_stream := False\<rparr>) ld tick b =
      writeOllamaError StatusInternalServerError (''stream scanner error: '' @ Error err)"
    by (simp add: relay_def)
qed

theorem broken_stream_looks_complete_witness:
  "\<exists>out final reason. relay (\<lambda>_. Some hi_chunk) True hi_env 0 0
       \<lparr>sb_lines = [''data: 1''], sb_err = \<lambda>_. Some (ErrNew ''unexpected EOF'')\<rparr> =
       Reply StatusOK ''application/x-ndjson'' (out @ [final]) \<and> member ''done'' final = Some (JBool True) \<and>
       member ''done_reason'' final = Some (JStr reason)"
proof -
  let ?b = "\<lparr>sb_lines = [''data: 1''], sb_err = \<lambda>_. Some (ErrNew ''unexpected EOF'')\<rparr> :: scan_body"
  have "se_stream hi_env" "sb_err ?b (length (sb_lines ?b)) = Some (ErrNew ''unexpected EOF'')"
    "\<And>l. l \<in> set (sb_lines ?b) \<Longrightarrow> line_event (\<lambda>_. Some hi_chunk) l \<noteq> Done"
    by (simp_all add: hi_env_def hi_event)
  from broken_stream_looks_complete [OF this, of 0 0 True] show ?thesis by blast
qed

text \<open>The request as a function of the options, without an order.\<close>

definition request_spec :: "string \<Rightarrow> ollamaMessage list \<Rightarrow> (string \<rightharpoonup> json) \<Rightarrow> string \<Rightarrow> json option" where
  "request_spec i ms os k =
     (if k \<in> set core_keys then base_request i ms k
      else if k = ''num_predict'' then None
      else if k = ''max_tokens'' \<and> os ''num_predict'' \<noteq> None then os ''num_predict''
      else os k)"

lemma set_option_core: "k \<in> set core_keys \<Longrightarrow> set_option req kv k = req k"
  by (auto simp: set_option_def core_keys_def split: prod.split)

lemma completion_request_Nil:
  "completion_request i ms [] k = (if k \<in> set core_keys then base_request i ms k else None)"
  by (auto simp: completion_request_def base_request_def core_keys_def)

lemma completion_request_snoc:
  "completion_request i ms (os @ [(k, v)]) = set_option (completion_request i ms os) (k, v)"
  by (simp add: completion_request_def)

lemma completion_request_eq:
  assumes "distinct (map fst os)" "\<not> {''num_predict'', ''max_tokens''} \<subseteq> fst ` set os"
  shows "completion_request i ms os = request_spec i ms (map_of os)"
  using assms
proof (induction os rule: rev_induct)
  case Nil
  show ?case by (rule ext) (auto simp: completion_request_Nil request_spec_def)
next
  case (snoc kv os)
  obtain k v where kv: "kv = (k, v)" by (cases kv)
  have new: "k \<notin> fst ` set os" using snoc.prems(1) kv by auto
  then have "map_of os k = None" by (simp add: map_of_eq_None_iff)
  then have m: "map_of (os @ [(k, v)]) = (map_of os)(k \<mapsto> v)"
    by (auto simp: map_add_def fun_eq_iff split: option.split)
  have IH: "completion_request i ms os = request_spec i ms (map_of os)"
    using snoc.prems kv by (intro snoc.IH) auto
  have "map_of os ''num_predict'' = None" if "k = ''max_tokens''"
    using snoc.prems(2) that kv by (auto simp: map_of_eq_None_iff)
  moreover have "map_of os ''max_tokens'' = None" if "k = ''num_predict''"
    using snoc.prems(2) that kv by (auto simp: map_of_eq_None_iff)
  ultimately show ?case
    unfolding kv completion_request_snoc IH m set_option_def request_spec_def core_keys_def
    by (auto simp: fun_eq_iff)
qed

text \<open>
  C25. Client options cannot shadow the core of the request: whatever the options and the order of
  their iteration, model, messages, streaming and usage reporting are the Supervisor's, options
  under other names pass through, and \<open>num_predict\<close> arrives as \<open>max_tokens\<close>. The request does not
  depend on the order unless the options have both \<open>num_predict\<close> and \<open>max_tokens\<close>.
\<close>

theorem options_cannot_shadow:
  assumes "distinct (map fst os)"
  shows "(\<forall>k \<in> set core_keys. completion_request i ms os k = base_request i ms k) \<and>
    completion_request i ms os ''num_predict'' = None \<and>
    (\<not> {''num_predict'', ''max_tokens''} \<subseteq> fst ` set os \<longrightarrow>
       completion_request i ms os = request_spec i ms (map_of os) \<and>
       (\<forall>os'. mset os' = mset os \<longrightarrow> completion_request i ms os' = completion_request i ms os)) \<and>
    (\<forall>a b. completion_request i ms [(''num_predict'', a), (''max_tokens'', b)] ''max_tokens'' = Some b \<and>
       completion_request i ms [(''max_tokens'', b), (''num_predict'', a)] ''max_tokens'' = Some a)"
proof (intro conjI)
  show "\<forall>k \<in> set core_keys. completion_request i ms os k = base_request i ms k"
    by (induction os rule: rev_induct) (auto simp: completion_request_Nil completion_request_snoc set_option_core)
  show "completion_request i ms os ''num_predict'' = None"
    by (induction os rule: rev_induct)
       (auto simp: completion_request_Nil completion_request_snoc set_option_def core_keys_def)
  show "\<not> {''num_predict'', ''max_tokens''} \<subseteq> fst ` set os \<longrightarrow>
       completion_request i ms os = request_spec i ms (map_of os) \<and>
       (\<forall>os'. mset os' = mset os \<longrightarrow> completion_request i ms os' = completion_request i ms os)"
  proof (intro impI conjI allI)
    assume n: "\<not> {''num_predict'', ''max_tokens''} \<subseteq> fst ` set os"
    show eq: "completion_request i ms os = request_spec i ms (map_of os)" by (rule completion_request_eq [OF assms n])
    fix os'
    assume p: "mset os' = mset os"
    then have d: "distinct (map fst os')" "set os' = set os"
      using assms mset_eq_imp_distinct_iff [of "map fst os'" "map fst os"] mset_eq_setD [OF p] by simp_all
    then have "map_of os' = map_of os" using assms by (simp add: map_of_inject_set)
    then show "completion_request i ms os' = completion_request i ms os"
      using completion_request_eq [OF d(1)] n eq d(2) by simp
  qed
qed (simp add: completion_request_def set_option_def core_keys_def)

theorem options_cannot_shadow_witness:
  "completion_request ''big:q4_0'' [] [(''model'', JStr ''evil''), (''num_predict'', JInt 5)] ''model'' =
     Some (JStr ''big:q4_0'')"
proof -
  have "distinct (map fst [(''model'', JStr ''evil''), (''num_predict'', JInt 5)])" by simp
  note h = bspec [OF conjunct1 [OF options_cannot_shadow [OF this, of "''big:q4_0''" "[]"]], of "''model''"]
  have "''model'' \<in> set core_keys" by (simp add: core_keys_def)
  from h [OF this] show ?thesis by (simp add: base_request_def)
qed

text \<open>
  A \<open>keep_alive\<close> given as a whole number of seconds is taken exactly, up to 4611686018 seconds
  (146 years); zero asks for eviction after the request and a negative number for no expiry. Ten
  thousand million seconds already overflow a \<open>time.Duration\<close>: then the TTL is whatever the
  conversion of the processor yields.
\<close>

theorem keep_alive_seconds:
  "(0 \<le> n \<longrightarrow> n \<le> 4611686018 \<longrightarrow> parseKeepAlive pd pf ovf (Some (JInt n)) = (n * 1000000000, True)) \<and>
   (n < 0 \<longrightarrow> - 4611686018 \<le> n \<longrightarrow> parseKeepAlive pd pf ovf (Some (JInt n)) = (- 1, True)) \<and>
   parseKeepAlive pd pf ovf (Some (JInt 10000000000)) = (ovf, True)"
proof (intro conjI impI)
  have lim: "m < 2 ^ 1024" if "m \<le> 10000000000" for m :: nat
  proof -
    have "(2 :: nat) ^ 40 \<le> 2 ^ 1024" by (rule power_increasing) simp_all
    with that show ?thesis by simp
  qed
  have flt: "json_float (JInt i) = Some (FFin (i < 0) (nat \<bar>i\<bar>) 0)" if "\<bar>i\<bar> \<le> 10000000000" for i
  proof -
    have "nat \<bar>i\<bar> \<le> 10000000000" using that by linarith
    moreover from this have "round53 (nat \<bar>i\<bar>) = nat \<bar>i\<bar>" by (intro round53_small) simp
    ultimately show ?thesis using lim [of "nat \<bar>i\<bar>"] by (simp add: Let_def)
  qed
  show "parseKeepAlive pd pf ovf (Some (JInt n)) = (n * 1000000000, True)" if "0 \<le> n" "n \<le> 4611686018"
    using that seconds_int [of "nat n" ovf False] flt [of n]
    by (simp add: parseKeepAlive_def keep_seconds_def del: json_float.simps)
  show "parseKeepAlive pd pf ovf (Some (JInt n)) = (- 1, True)" if "n < 0" "- 4611686018 \<le> n"
    using that flt [of n] by (simp add: parseKeepAlive_def keep_seconds_def del: json_float.simps)
  have "round53 (19073486328125 * 2 ^ 19) = 19073486328125 * 2 ^ 19" by (intro round53_exact) simp
  then have "seconds ovf (FFin False 10000000000 0) = ovf" by (simp add: seconds_def float_trunc_def)
  with flt [of 10000000000] show "parseKeepAlive pd pf ovf (Some (JInt 10000000000)) = (ovf, True)"
    by (simp add: parseKeepAlive_def keep_seconds_def del: json_float.simps)
qed

theorem keep_alive_seconds_witness:
  "parseKeepAlive (\<lambda>_. None) (\<lambda>_. None) 0 (Some (JInt 300)) = (300000000000, True)"
  using keep_alive_seconds [of 300 "\<lambda>_. None" "\<lambda>_. None" 0] by simp

text \<open>The handler got an Instance, and with it a Slot.\<close>

definition took_slot :: "'b shim_env \<Rightarrow> string \<Rightarrow> json option \<Rightarrow> world \<Rightarrow> bool" where
  "took_slot E ref raw w \<longleftrightarrow>
     (case resolveModel (env_stat E) (w_sup w) ref of
        Inl _ \<Rightarrow> False
      | Inr model \<Rightarrow> (case fst (env_get E model (keep_alive_ttl E model raw w)) of Inl _ \<Rightarrow> False | Inr _ \<Rightarrow> True))"

text \<open>
  C26. No request leaks a Slot: on every path through a completion or an embedding, errors of the
  exchange with the process included, a Slot that was taken is released exactly once, and none is
  released that was not taken. An Instance is drained after the request only for \<open>keep_alive: 0\<close>.
\<close>

theorem handlers_release_slot:
  "(let (_, ds, _) = serveOllamaCompletion E order ref ms raw st ch w
    in count_list ds Releases = (if took_slot E ref raw w then 1 else 0) \<and>
       (\<forall>a. StartsDrain a \<in> set ds \<longrightarrow> env_keep E raw = (0, True))) \<and>
   (let (_, ds, _) = serve_embed E' path req w
    in count_list ds Releases = (if took_slot E' (em_Model req) (em_KeepAlive req) w then 1 else 0) \<and>
       (\<forall>a. StartsDrain a \<in> set ds \<longrightarrow> env_keep E' (em_KeepAlive req) = (0, True)))"
proof -
  have d: "drain_after F m raw w = Some a \<Longrightarrow> env_keep F raw = (0, True)" for F :: "'x shim_env" and m raw w a
    by (auto simp: drain_after_def Let_def split: prod.splits if_splits)
  have "let (_, ds, _) = serveOllamaCompletion E order ref ms raw st ch w
    in count_list ds Releases = (if took_slot E ref raw w then 1 else 0) \<and>
       (\<forall>a. StartsDrain a \<in> set ds \<longrightarrow> env_keep E raw = (0, True))"
    by (auto simp: serveOllamaCompletion_def took_slot_def Let_def dest: d split: sum.split prod.split option.split)
  moreover have "let (_, ds, _) = serve_embed E' path req w
    in count_list ds Releases = (if took_slot E' (em_Model req) (em_KeepAlive req) w then 1 else 0) \<and>
       (\<forall>a. StartsDrain a \<in> set ds \<longrightarrow> env_keep E' (em_KeepAlive req) = (0, True))"
    by (auto simp: serve_embed_def took_slot_def Let_def dest: d split: sum.split prod.split option.split)
  ultimately show ?thesis by blast
qed

definition sample_shim :: "scan_body shim_env" where
  "sample_shim = \<lparr>env_stat = \<lambda>_. None, env_keep = \<lambda>_. (0, True), env_get = \<lambda>m w. (Inr 7, w),
     env_send = \<lambda>_ _. SendFails (ErrNew ''EOF''), env_parse = \<lambda>_. None, env_clock = int, env_flush = True\<rparr>"

theorem handlers_release_slot_witness:
  "took_slot sample_shim ''big:q4_0'' None at_rest \<and>
   (\<exists>r ds w. serveOllamaCompletion sample_shim [] ''big:q4_0'' [] None True True at_rest = (r, ds, w) \<and>
      count_list ds Releases = 1)"
proof -
  have t: "took_slot sample_shim ''big:q4_0'' None at_rest"
    by (simp add: took_slot_def sample_shim_def at_rest_def resolveModel_def registry_of_def two_models_def)
  obtain r ds w where s: "serveOllamaCompletion sample_shim [] ''big:q4_0'' [] None True True at_rest = (r, ds, w)"
    using prod_cases3 by blast
  note h = conjunct1 [OF handlers_release_slot [where E = sample_shim and order = "[]" and ref = "''big:q4_0''" and ms = "[]"
      and raw = None and st = True and ch = True and w = at_rest]]
  from h t s show ?thesis by (auto simp: Let_def)
qed

text \<open>
  \<open>/api/ps\<close> shows every registered Instance once, in the order of the names, with its Slots in
  use and its Slot count, whatever the order in which the map is visited.
\<close>

theorem ps_lists_instances:
  assumes "registry_ok (w_sup w)" "distinct (map fst (s_instances (w_sup w)))"
    and "\<And>i a. (i, a) \<in> set (s_instances (w_sup w)) \<Longrightarrow> w_residents w a \<noteq> None"
  shows "sorted_wrt (<) (map ps_Name (ps_models alloc now w)) \<and>
    set (map ps_Name (ps_models alloc now w)) = fst ` set (s_instances (w_sup w)) \<and>
    (\<forall>p \<in> set (ps_models alloc now w). \<exists>a ri. (ps_Name p, a) \<in> set (s_instances (w_sup w)) \<and>
       w_residents w a = Some ri \<and> (ps_ActiveSlots p, ps_MaxSlots p) = Occupancy ri)"
proof -
  let ?is = "s_instances (w_sup w)"
  let ?f = "\<lambda>(i, a). map_option (ps_model alloc now (w_sup w) i) (w_residents w a)"
  have id: "m_ID (model_of_id (w_sup w) i) = i" for i
    using assms(1) by (auto simp: model_of_id_def registry_ok_def split: option.split)
  have name: "ps_Name (ps_model alloc now (w_sup w) i ri) = i"
    "(ps_ActiveSlots (ps_model alloc now (w_sup w) i ri), ps_MaxSlots (ps_model alloc now (w_sup w) i ri)) = Occupancy ri"
    for i ri
    by (simp_all add: ps_model_def Let_def id Occupancy_def)
  have names: "map ps_Name (List.map_filter ?f is) = map fst is"
    if "\<And>i a. (i, a) \<in> set is \<Longrightarrow> w_residents w a \<noteq> None" for "is"
    using that
  proof (induction "is")
    case (Cons e es)
    obtain i a where e: "e = (i, a)" by (cases e)
    obtain ri where "w_residents w a = Some ri" using Cons.prems [of i a] e by auto
    moreover have "map ps_Name (List.map_filter ?f es) = map fst es" by (rule Cons.IH) (metis Cons.prems list.set_intros(2))
    ultimately show ?case by (simp add: e map_filter_simps name)
  qed (simp add: map_filter_simps)
  have all: "map ps_Name (List.map_filter ?f ?is) = map fst ?is" by (rule names [OF assms(3)])
  have "set (map ps_Name (ps_models alloc now w)) = fst ` set ?is"
    using arg_cong [OF all, of set] by (simp add: ps_models_def)
  moreover have "distinct (map ps_Name (ps_models alloc now w))"
  proof -
    have "mset (map ps_Name (ps_models alloc now w)) = mset (map ps_Name (List.map_filter ?f ?is))"
      by (simp add: ps_models_def)
    then show ?thesis using mset_eq_imp_distinct_iff assms(2) unfolding all by blast
  qed
  moreover have "sorted (map ps_Name (ps_models alloc now w))" by (simp add: ps_models_def)
  moreover have "\<exists>a ri. (ps_Name p, a) \<in> set ?is \<and> w_residents w a = Some ri \<and>
      (ps_ActiveSlots p, ps_MaxSlots p) = Occupancy ri" if "p \<in> set (ps_models alloc now w)" for p
    using that by (auto simp: ps_models_def List.map_filter_def name)
  ultimately show ?thesis by (simp add: strict_sorted_iff)
qed

theorem ps_lists_instances_witness:
  "\<exists>p. ps_models (\<lambda>_. \<lparr>VRAM = 0, RAM = 0\<rparr>) 0 (at_rest\<lparr>w_sup := two\<lparr>s_instances := [(''big:q4_0'', 3)]\<rparr>,
     w_residents := [3 \<mapsto> fresh 10 1]\<rparr>) = [p] \<and> ps_Name p = ''big:q4_0''"
proof -
  let ?w = "at_rest\<lparr>w_sup := two\<lparr>s_instances := [(''big:q4_0'', 3)]\<rparr>, w_residents := [3 \<mapsto> fresh 10 1]\<rparr>"
  let ?l = "ps_models (\<lambda>_. \<lparr>VRAM = 0, RAM = 0\<rparr>) 0 ?w"
  have "registry_ok (w_sup ?w)" using two_ok by (simp add: registry_ok_def)
  moreover have "distinct (map fst (s_instances (w_sup ?w)))"
    "\<And>i a. (i, a) \<in> set (s_instances (w_sup ?w)) \<Longrightarrow> w_residents ?w a \<noteq> None"
    by simp_all
  ultimately have h: "set (map ps_Name ?l) = fst ` set (s_instances (w_sup ?w))"
    using ps_lists_instances [of ?w "\<lambda>_. \<lparr>VRAM = 0, RAM = 0\<rparr>" 0] by blast
  have "length ?l = 1" by (simp add: ps_models_def map_filter_simps)
  then obtain p where "?l = [p]" by (auto simp: length_Suc_conv)
  with h show ?thesis by auto
qed

end
