(* ===== verification/Real_Host.thy ===== *)
theory Real_Host
  imports State
begin

text \<open>
  The Host on real hardware, \<open>src/internal/host/real.go\<close> with \<open>real_linux.go\<close> and
  \<open>real_other.go\<close>: what it reads of the machine and makes of it (accelerators, memory, build,
  fingerprint), the command line it launches, and a launched process with the goroutines that
  read its error output and wait for its end. What programs print and files hold is an argument.
\<close>

section \<open>What the machine says\<close>

text \<open>
  \<open>hw_nvidia\<close>: the lines \<open>nvidia-smi\<close> prints, if it is there and succeeds; \<open>hw_drm\<close>: the contents of
  the files of the glob, where readable; \<open>hw_llama\<close>: whether \<open>llama-server\<close> is found;
  \<open>hw_version\<close>: its output, if it succeeds; \<open>hw_binary\<close>: its bytes; \<open>hw_meminfo\<close>: the lines of
  \<open>/proc/meminfo\<close>; \<open>hw_sysinfo\<close>: memory and unit of \<open>sysinfo\<close>; \<open>hw_sysctl\<close>: what \<open>sysctl\<close> prints;
  \<open>hw_statm\<close>: \<open>/proc/pid/statm\<close>.
\<close>

record hardware =
  hw_goos :: string
  hw_nvidia :: "string list option"
  hw_drm :: "string option list"
  hw_llama :: bool
  hw_version :: "string option"
  hw_binary :: "string option"
  hw_meminfo :: "string list option"
  hw_sysinfo :: "(u64 \<times> u32) option"
  hw_sysctl :: "string option"
  hw_statm :: "int \<Rightarrow> string option"
  hw_pagesize :: int

text \<open>\<open>strings.Fields\<close>.\<close>

fun fields_from :: "string \<Rightarrow> string \<Rightarrow> string list" where
  "fields_from acc [] = (if acc = [] then [] else [acc])"
| "fields_from acc (c # s) =
     (if is_space c then (if acc = [] then fields_from [] s else acc # fields_from [] s)
      else fields_from (acc @ [c]) s)"

definition Fields :: "string \<Rightarrow> string list" where
  "Fields s = fields_from [] s"

text \<open>\<open>strconv.ParseInt(s, 10, 64)\<close> without an error.\<close>

definition ParseInt :: "string \<Rightarrow> int option" where
  "ParseInt s = (case Atoi s of (v, True) \<Rightarrow> Some v | _ \<Rightarrow> None)"

definition nvidia_line :: "string \<Rightarrow> Accelerator option" where
  "nvidia_line l =
     (let line = TrimSpace l; parts = Split line (CHR '','')
      in if line = [] \<or> length parts < 3 then None
         else (case ParseInt (TrimSpace (parts ! 2)) of
                 Some memMiB \<Rightarrow>
                   if memMiB > 0
                   then Some \<lparr>acc_ID = ''cuda:'' @ TrimSpace (parts ! 0), acc_Name = TrimSpace (parts ! 1),
                              acc_TotalMemory = wrap64 (memMiB * 1024 * 1024)\<rparr>
                   else None
               | None \<Rightarrow> None))"

definition drm_file :: "nat \<times> string option \<Rightarrow> Accelerator option" where
  "drm_file f =
     (let (i, content) = f
      in case Option.bind content (\<lambda>data. ParseInt (TrimSpace data)) of
           Some memBytes \<Rightarrow>
             if memBytes > 0
             then Some \<lparr>acc_ID = ''gpu:'' @ Itoa (int i), acc_Name = ''DRM GPU '' @ Itoa (int i),
                        acc_TotalMemory = memBytes\<rparr>
             else None
         | None \<Rightarrow> None)"

definition detectAccelerators :: "hardware \<Rightarrow> Accelerator list" where
  "detectAccelerators hw =
     (let accs = (case hw_nvidia hw of Some ls \<Rightarrow> List.map_filter nvidia_line ls | None \<Rightarrow> [])
      in if accs \<noteq> [] then accs
         else if hw_goos hw = ''linux'' then List.map_filter drm_file (List.enumerate 0 (hw_drm hw))
         else [])"

text \<open>The first line that is not blank, or a digest of the binary.\<close>

definition detectLlamaServerBuildID :: "hardware \<Rightarrow> string" where
  "detectLlamaServerBuildID hw =
     (if \<not> hw_llama hw then ''unknown''
      else
        (let lines = (case hw_version hw of
                        Some out \<Rightarrow> filter (\<lambda>l. l \<noteq> []) (map TrimSpace (Split (TrimSpace out) (CHR 0x0A)))
                      | None \<Rightarrow> [])
         in case lines of
              l # _ \<Rightarrow> l
            | [] \<Rightarrow>
                (case hw_binary hw of
                   Some data \<Rightarrow> if data \<noteq> [] then ''binary:'' @ hex_string (take 8 (Sum256 data)) else ''unknown''
                 | None \<Rightarrow> ''unknown'')))"

definition meminfo_line :: "string \<Rightarrow> int option" where
  "meminfo_line line =
     (if HasPrefix line ''MemTotal:'' then
        (case Fields line of
           _ # kbs # _ \<Rightarrow> (case ParseInt kbs of Some kb \<Rightarrow> if kb > 0 then Some (wrap64 (kb * 1024)) else None | None \<Rightarrow> None)
         | _ \<Rightarrow> None)
      else None)"

text \<open>\<open>detectSystemMemory\<close> on Linux and elsewhere; an error goes with 0.\<close>

definition detectSystemMemory_linux :: "hardware \<Rightarrow> int" where
  "detectSystemMemory_linux hw =
     (case (case hw_meminfo hw of Some ls \<Rightarrow> List.map_filter meminfo_line ls | None \<Rightarrow> []) of
        m # _ \<Rightarrow> m
      | [] \<Rightarrow>
          (case hw_sysinfo hw of Some (ram, un) \<Rightarrow> wrap64 (wrap64 (uint ram) * uint un) | None \<Rightarrow> 0))"

definition detectSystemMemory_other :: "hardware \<Rightarrow> int" where
  "detectSystemMemory_other hw =
     (if hw_goos hw = ''darwin'' then
        (case Option.bind (hw_sysctl hw) (\<lambda>out. ParseInt (TrimSpace out)) of
           Some mem \<Rightarrow> if mem > 0 then mem else 0
         | None \<Rightarrow> 0)
      else 0)"

definition detectSystemMemory :: "hardware \<Rightarrow> int" where
  "detectSystemMemory hw =
     (if hw_goos hw = ''linux'' then detectSystemMemory_linux hw else detectSystemMemory_other hw)"

definition getProcessRAM :: "hardware \<Rightarrow> int \<Rightarrow> int" where
  "getProcessRAM hw pid =
     (if hw_goos hw \<noteq> ''linux'' \<or> pid \<le> 0 then 0
      else (case hw_statm hw pid of
              Some data \<Rightarrow>
                (case Fields data of
                   _ # p # _ \<Rightarrow>
                     (case ParseInt p of
                        Some pages \<Rightarrow> if pages > 0 then wrap64 (pages * hw_pagesize hw) else 0
                      | None \<Rightarrow> 0)
                 | _ \<Rightarrow> 0)
            | None \<Rightarrow> 0))"

section \<open>The Host\<close>

text \<open>
  A reader that is not set is \<^const>\<open>None\<close>; of one that is set, what it returns: \<^const>\<open>None\<close> for
  \<open>nil\<close> accelerators and for an error.
\<close>

record RealHost =
  rh_acceleratorDetector :: "Accelerator list option option"
  rh_systemMemoryReader :: "int option option"
  rh_llamaBuildIDReader :: "string option option"

datatype host_option =
    WithAcceleratorDetector "Accelerator list option"
  | WithSystemMemoryReader "int option"
  | WithLlamaBuildIDReader "string option"

fun apply_host_option :: "RealHost \<Rightarrow> host_option \<Rightarrow> RealHost" where
  "apply_host_option r (WithAcceleratorDetector fn) = r\<lparr>rh_acceleratorDetector := Some fn\<rparr>"
| "apply_host_option r (WithSystemMemoryReader fn) = r\<lparr>rh_systemMemoryReader := Some fn\<rparr>"
| "apply_host_option r (WithLlamaBuildIDReader fn) = r\<lparr>rh_llamaBuildIDReader := Some fn\<rparr>"

definition NewRealHost :: "host_option list \<Rightarrow> RealHost" where
  "NewRealHost opts =
     foldl apply_host_option
       \<lparr>rh_acceleratorDetector = None, rh_systemMemoryReader = None, rh_llamaBuildIDReader = None\<rparr> opts"

definition Accelerators :: "hardware \<Rightarrow> RealHost \<Rightarrow> Accelerator list" where
  "Accelerators hw r =
     (case rh_acceleratorDetector r of Some (Some accs) \<Rightarrow> accs | _ \<Rightarrow> detectAccelerators hw)"

definition systemMemory :: "hardware \<Rightarrow> RealHost \<Rightarrow> int" where
  "systemMemory hw r = (case rh_systemMemoryReader r of Some (Some mem) \<Rightarrow> mem | _ \<Rightarrow> detectSystemMemory hw)"

definition llamaBuildID :: "hardware \<Rightarrow> RealHost \<Rightarrow> string" where
  "llamaBuildID hw r =
     (case rh_llamaBuildIDReader r of
        Some (Some i) \<Rightarrow> if i \<noteq> [] then i else detectLlamaServerBuildID hw
      | _ \<Rightarrow> detectLlamaServerBuildID hw)"

definition acc_summary :: "Accelerator list \<Rightarrow> string" where
  "acc_summary accs =
     (let s = Join (map (\<lambda>a. ''id='' @ acc_ID a @ '',name='' @ acc_Name a @ '',mem='' @ Itoa (acc_TotalMemory a)) accs) '';''
      in if s = [] then ''none'' else s)"

definition fingerprint_text :: "Accelerator list \<Rightarrow> int \<Rightarrow> string \<Rightarrow> string" where
  "fingerprint_text accs sysMem buildID =
     ''accelerators:'' @ acc_summary accs @ [CHR 0x0A] @ ''system_ram:'' @ Itoa sysMem @ [CHR 0x0A] @
     ''llama_build:'' @ buildID"

definition Fingerprint :: "hardware \<Rightarrow> RealHost \<Rightarrow> string" where
  "Fingerprint hw r =
     hex_string (Sum256 (fingerprint_text (Accelerators hw r) (systemMemory hw r) (llamaBuildID hw r)))"

section \<open>The command line\<close>

definition is_port_flag :: "string \<Rightarrow> bool" where
  "is_port_flag arg \<longleftrightarrow> arg = ''--port'' \<or> arg = ''-port''"

text \<open>The index of the first element with a property, if any.\<close>

fun index_of :: "('a \<Rightarrow> bool) \<Rightarrow> 'a list \<Rightarrow> nat option" where
  "index_of P [] = None"
| "index_of P (x # xs) = (if P x then Some 0 else map_option Suc (index_of P xs))"

text \<open>\<open>free\<close> is what \<open>getFreePort\<close> returns.\<close>

definition prepareArgv :: "(go_error, int) res \<Rightarrow> string list \<Rightarrow> (go_error, string list \<times> int) res" where
  "prepareArgv free argv =
     (if length argv = 0 then Inl (ErrNew ''empty argv'')
      else
        (let getFree = map_err (ErrWrap ''allocating free port'') free
         in case index_of is_port_flag argv of
              Some i \<Rightarrow>
                (if i + 1 < length argv then
                   (case Atoi (argv ! (i + 1)) of
                      (p, ok) \<Rightarrow>
                        if ok \<and> p > 0 then Inr (argv, p)
                        else res_bind getFree (\<lambda>port. Inr (argv[i + 1 := Itoa port], port)))
                 else res_bind getFree (\<lambda>port. Inr (argv @ [''--port'', Itoa port], port)))
            | None \<Rightarrow> res_bind getFree (\<lambda>port. Inr (argv @ [''--port'', Itoa port], port))))"

section \<open>Observed memory\<close>

text \<open>
  The regular expressions over the error output, as sequences of simple parts that leave the
  matcher no choice: a literal in any letter case, one or more or any number of spaces, one of
  some characters, and digits. They end in a number and a unit.
\<close>

datatype part = Lit string | Spaces1 | Spaces | OneOf string | Digits

definition re_space :: "char \<Rightarrow> bool" where
  "re_space c \<longleftrightarrow> c \<in> {CHR '' '', CHR 0x09, CHR 0x0A, CHR 0x0C, CHR 0x0D}"

fun match_part :: "part \<Rightarrow> string \<Rightarrow> string option" where
  "match_part (Lit l) s = (if EqualFold (take (length l) s) l then Some (drop (length l) s) else None)"
| "match_part Spaces1 s = (case s of c # t \<Rightarrow> if re_space c then Some (dropWhile re_space t) else None | [] \<Rightarrow> None)"
| "match_part Spaces s = Some (dropWhile re_space s)"
| "match_part (OneOf cs) s = (case s of c # t \<Rightarrow> if c \<in> set cs then Some t else None | [] \<Rightarrow> None)"
| "match_part Digits s = (case s of c # t \<Rightarrow> if is_digit c then Some (dropWhile is_digit t) else None | [] \<Rightarrow> None)"

fun match_parts :: "part list \<Rightarrow> string \<Rightarrow> string option" where
  "match_parts [] s = Some s"
| "match_parts (p # ps) s = Option.bind (match_part p s) (match_parts ps)"

definition number_char :: "char \<Rightarrow> bool" where
  "number_char c \<longleftrightarrow> is_digit c \<or> c = CHR ''.''"

definition match_unit :: "string \<Rightarrow> string option" where
  "match_unit s =
     (if EqualFold (take 3 s) ''MiB'' then Some (take 3 s)
      else if EqualFold (take 3 s) ''GiB'' then Some (take 3 s)
      else if EqualFold (take 1 s) ''B'' then Some (take 1 s)
      else None)"

definition match_here :: "part list \<Rightarrow> string \<Rightarrow> (string \<times> string) option" where
  "match_here ps s =
     Option.bind (match_parts ps s) (\<lambda>t.
       let n = takeWhile number_char t
       in if n = [] then None
          else map_option (Pair n) (match_unit (dropWhile re_space (dropWhile number_char t))))"

fun FindStringSubmatch :: "part list \<Rightarrow> string \<Rightarrow> (string \<times> string) option" where
  "FindStringSubmatch ps [] = match_here ps []"
| "FindStringSubmatch ps (c # s) =
     (case match_here ps (c # s) of Some m \<Rightarrow> Some m | None \<Rightarrow> FindStringSubmatch ps s)"

definition vramRegexes :: "part list list" where
  "vramRegexes =
    [[Lit ''VRAM'', Spaces1, Lit ''total'', Spaces, OneOf ''='', Spaces],
     [Lit ''VRAM'', Spaces1, Lit ''footprint'', Spaces, OneOf '':='', Spaces],
     [Lit ''VRAM'', Spaces1, Lit ''used'', Spaces, OneOf '':='', Spaces],
     [Lit ''offloaded'', Spaces1, Digits, OneOf ''/'', Digits, Spaces1, Lit ''layers'', Spaces1, Lit ''to'', Spaces1,
      Lit ''GPU'', Spaces, OneOf '','', Spaces],
     [Lit ''VRAM'', Spaces1, Lit ''buffer'', Spaces1, Lit ''size'', Spaces, OneOf ''='', Spaces]]"

text \<open>
  A positive number of a unit in bytes, truncated; multiplying by powers of two is exact. Out of
  the range of \<open>int64\<close> the result is the implementation's: \<open>ovf\<close>.
\<close>

definition unit_shift :: "string \<Rightarrow> int" where
  "unit_shift u = (if ToUpper u = ''GIB'' then 30 else if ToUpper u = ''MIB'' then 20 else 0)"

definition observed_bytes :: "int \<Rightarrow> (string \<Rightarrow> ieee option) \<Rightarrow> string \<times> string \<Rightarrow> int option" where
  "observed_bytes ovf ParseFloat m =
     (case ParseFloat (fst m) of
        Some (FFin neg man e) \<Rightarrow>
          (if \<not> neg \<and> 0 < man
           then let n = float_trunc man (e + unit_shift (snd m)) in Some (if n < 2 ^ 63 then int n else ovf)
           else None)
      | _ \<Rightarrow> None)"

definition observe :: "int \<Rightarrow> (string \<Rightarrow> ieee option) \<Rightarrow> string \<Rightarrow> int \<Rightarrow> part list \<Rightarrow> int" where
  "observe ovf ParseFloat line vram re =
     (case Option.bind (FindStringSubmatch re line) (observed_bytes ovf ParseFloat) of
        Some b \<Rightarrow> if b > vram then b else vram
      | None \<Rightarrow> vram)"

definition scan_vram :: "int \<Rightarrow> (string \<Rightarrow> ieee option) \<Rightarrow> string \<Rightarrow> int \<Rightarrow> int" where
  "scan_vram ovf ParseFloat line vram = foldl (observe ovf ParseFloat line) vram vramRegexes"

section \<open>Failures\<close>

text \<open>How a process ended, as \<open>cmd.Wait\<close> reports it: a code, a signal, or another error.\<close>

datatype wait_err = ExitStatus int | Killed nat | WaitFails string

fun wait_error :: "wait_err \<Rightarrow> go_error" where
  "wait_error (ExitStatus n) = ErrNew (''exit status '' @ Itoa n)"
| "wait_error (Killed n) = ErrNew (if n = 9 then ''signal: killed'' else ''signal: '' @ Itoa (int n))"
| "wait_error (WaitFails e) = ErrNew e"

fun exit_code :: "wait_err \<Rightarrow> int" where
  "exit_code (ExitStatus n) = n"
| "exit_code (Killed _) = - 1"
| "exit_code (WaitFails _) = - 1"

definition isOOMSignal :: "string \<Rightarrow> wait_err \<Rightarrow> bool" where
  "isOOMSignal goos e \<longleftrightarrow> goos = ''linux'' \<and> e = Killed 9"

definition oomPatterns :: "string list" where
  "oomPatterns =
    [''out of memory'', ''cuda error: out of memory'', ''failed to allocate memory'', ''std::bad_alloc'',
     ''ggml_cuda_host_malloc: failed to allocate'', ''ggml_backend_buffer_init: failed to allocate'',
     ''not enough memory'', ''alloc_buffer: failed to allocate'', ''cannot allocate memory'', ''oom-killer'']"

definition isOOMFailure :: "string \<Rightarrow> wait_err \<Rightarrow> string \<Rightarrow> bool" where
  "isOOMFailure goos waitErr stderr \<longleftrightarrow>
     isOOMSignal goos waitErr \<or> list_ex (\<lambda>p. Contains (ToLower stderr) p) oomPatterns"

section \<open>A process\<close>

text \<open>
  A launched process and its \<open>realInstance\<close>. \<open>pr_status\<close> is \<^const>\<open>None\<close> while it runs, then how it
  ended; \<open>pr_pipe\<close> are the lines of error output in the pipe, \<open>pr_read\<close> those the scanner has read
  but not handled, \<open>pr_written\<close> all lines written so far. \<open>pr_ctxDone\<close>: the context \<open>Launch\<close> was
  called with is done. \<open>pr_waited\<close>: \<open>cmd.Wait\<close> has returned.
\<close>

record realInstance =
  pr_status :: "wait_err option option"
  pr_ctxDone :: bool
  pr_written :: "string list"
  pr_pipe :: "string list"
  pr_read :: "string list"
  pr_open :: bool
  pr_scanning :: bool
  pr_waited :: bool
  pr_done :: bool
  pr_exitErr :: "ProcessError option"
  pr_stopped :: bool
  pr_stderrBuf :: string
  pr_vramObs :: int

definition newInstance :: realInstance where
  "newInstance = \<lparr>pr_status = None, pr_ctxDone = False, pr_written = [], pr_pipe = [], pr_read = [], pr_open = True,
     pr_scanning = True, pr_waited = False, pr_done = False, pr_exitErr = None, pr_stopped = False,
     pr_stderrBuf = [], pr_vramObs = 0\<rparr>"

text \<open>One turn of \<open>scanStderr\<close>: the scanner gives up on a line that does not fit its buffer of 64 KiB.\<close>

definition scan_line :: "int \<Rightarrow> (string \<Rightarrow> ieee option) \<Rightarrow> string \<Rightarrow> realInstance \<Rightarrow> realInstance" where
  "scan_line ovf ParseFloat line r =
     (if length line < 65536
      then r\<lparr>pr_stderrBuf := pr_stderrBuf r @ line @ [CHR 0x0A], pr_vramObs := scan_vram ovf ParseFloat line (pr_vramObs r)\<rparr>
      else r\<lparr>pr_scanning := False\<rparr>)"

text \<open>The section of the goroutine that waits for the process.\<close>

definition record_exit :: "string \<Rightarrow> realInstance \<Rightarrow> realInstance" where
  "record_exit goos r =
     (let exitErr =
        (if pr_stopped r then None
         else case pr_status r of
                Some (Some waitErr) \<Rightarrow>
                  Some (ProcessError (exit_code waitErr) (isOOMFailure goos waitErr (pr_stderrBuf r)) (pr_stderrBuf r)
                         (Some (wait_error waitErr)))
              | _ \<Rightarrow> None)
      in r\<lparr>pr_exitErr := exitErr, pr_done := True\<rparr>)"

text \<open>
  Steps: the process writes, or ends in one of the ways \<open>own\<close> that it, or the system, has to end it;
  the pipe is read, a line is handled; the context of the launch is done, and \<open>exec.CommandContext\<close>
  then kills the process; \<open>Stop\<close> sets its flag, and its signals end the process in any way;
  \<open>cmd.Wait\<close> returns, which closes the pipe with what is in it, and the end is recorded.
\<close>

inductive proc_step :: "(wait_err option \<Rightarrow> bool) \<Rightarrow> string \<Rightarrow> int \<Rightarrow> (string \<Rightarrow> ieee option) \<Rightarrow> realInstance \<Rightarrow> realInstance \<Rightarrow> bool"
  for own goos ovf ParseFloat
where
  writes: "pr_status r = None \<Longrightarrow>
     proc_step own goos ovf ParseFloat r (r\<lparr>pr_pipe := pr_pipe r @ [l], pr_written := pr_written r @ [l]\<rparr>)"
| reads: "pr_open r \<Longrightarrow> pr_pipe r = l # ls \<Longrightarrow>
     proc_step own goos ovf ParseFloat r (r\<lparr>pr_pipe := ls, pr_read := pr_read r @ [l]\<rparr>)"
| scans: "pr_scanning r \<Longrightarrow> pr_read r = l # ls \<Longrightarrow>
     proc_step own goos ovf ParseFloat r (scan_line ovf ParseFloat l (r\<lparr>pr_read := ls\<rparr>))"
| exits: "pr_status r = None \<Longrightarrow> own how \<Longrightarrow> proc_step own goos ovf ParseFloat r (r\<lparr>pr_status := Some how\<rparr>)"
| context_done: "proc_step own goos ovf ParseFloat r (r\<lparr>pr_ctxDone := True\<rparr>)"
| context_kills: "pr_ctxDone r \<Longrightarrow> pr_status r = None \<Longrightarrow>
     proc_step own goos ovf ParseFloat r (r\<lparr>pr_status := Some (Some (Killed 9))\<rparr>)"
| stop_ends: "pr_stopped r \<Longrightarrow> pr_status r = None \<Longrightarrow> proc_step own goos ovf ParseFloat r (r\<lparr>pr_status := Some how\<rparr>)"
| wait_returns: "pr_status r \<noteq> None \<Longrightarrow> proc_step own goos ovf ParseFloat r (r\<lparr>pr_waited := True, pr_open := False\<rparr>)"
| exit_recorded: "pr_waited r \<Longrightarrow> \<not> pr_done r \<Longrightarrow> proc_step own goos ovf ParseFloat r (record_exit goos r)"
| stop_called: "proc_step own goos ovf ParseFloat r (r\<lparr>pr_stopped := True\<rparr>)"

definition proc_reachable :: "(wait_err option \<Rightarrow> bool) \<Rightarrow> string \<Rightarrow> int \<Rightarrow> (string \<Rightarrow> ieee option) \<Rightarrow> realInstance \<Rightarrow> bool" where
  "proc_reachable own goos ovf ParseFloat r \<longleftrightarrow> (proc_step own goos ovf ParseFloat)\<^sup>*\<^sup>* newInstance r"

text \<open>
  \<open>WaitReady\<close>, by what its \<open>select\<close> finds in each round: the context is done, the process has
  ended, or a tick, with the status of \<open>/health\<close> if it answered. \<^const>\<open>None\<close>: it still waits.
\<close>

datatype round = CtxDone go_error | InstDone | Tick "int option"

fun WaitReady :: "ProcessError option \<Rightarrow> round list \<Rightarrow> go_error option option" where
  "WaitReady exitErr [] = None"
| "WaitReady exitErr (CtxDone err # rs) = Some (Some err)"
| "WaitReady exitErr (InstDone # rs) =
     Some (Some (case exitErr of
                   Some pe \<Rightarrow> ErrWrap ''instance exited before ready'' (ErrProcess pe)
                 | None \<Rightarrow> ErrNew ''instance exited before ready''))"
| "WaitReady exitErr (Tick st # rs) = (if st = Some 200 then Some None else WaitReady exitErr rs)"

text \<open>
  \<open>Stop\<close>: its flag is set; then the end of the process or, with an error, of the context comes
  first. In that case the process is sent a kill. The result is the error, whether the process is
  killed, and the Instance.
\<close>

definition Stop :: "go_error option \<Rightarrow> realInstance \<Rightarrow> go_error option \<times> bool \<times> realInstance" where
  "Stop ctxErr r = (ctxErr, ctxErr \<noteq> None, r\<lparr>pr_stopped := True\<rparr>)"

text \<open>
  \<open>Launch\<close>: the port, the command line and the Instance; \<open>pipe\<close> and \<open>start\<close> are the errors of
  \<open>StderrPipe\<close> and \<open>Start\<close>. The URL of a loopback address and a number always parses.
\<close>

definition Launch ::
  "(go_error, int) res \<Rightarrow> go_error option \<Rightarrow> go_error option \<Rightarrow> string list \<Rightarrow>
     (go_error, int \<times> string list \<times> realInstance) res"
where
  "Launch free pipe start argv =
     (case prepareArgv free argv of
        Inl err \<Rightarrow> Inl (ErrWrap ''preparing argv'' err)
      | Inr (finalArgv, port) \<Rightarrow>
          (case pipe of
             Some err \<Rightarrow> Inl (ErrWrap ''creating stderr pipe'' err)
           | None \<Rightarrow>
               (case start of
                  Some err \<Rightarrow> Inl (ErrWrap (''starting subprocess '' @ finalArgv ! 0) err)
                | None \<Rightarrow> Inr (port, finalArgv, newInstance))))"

definition ObservedAllocation :: "hardware \<Rightarrow> int \<Rightarrow> realInstance \<Rightarrow> Allocation" where
  "ObservedAllocation hw pid r = \<lparr>VRAM = pr_vramObs r, RAM = getProcessRAM hw pid\<rparr>"

section \<open>Lemmas\<close>

lemma Contains_iff: "Contains s p \<longleftrightarrow> (\<exists>a b. s = a @ p @ b)"
proof (induction s)
  case Nil
  then show ?case by (auto simp: HasPrefix_def)
next
  case (Cons c s)
  show ?case
  proof
    assume "Contains (c # s) p"
    then consider "HasPrefix (c # s) p" | "Contains s p" by auto
    then show "\<exists>a b. c # s = a @ p @ b"
    proof cases
      case 1
      then show ?thesis by (metis HasPrefix_def append_Nil append_take_drop_id)
    next
      case 2
      then show ?thesis using Cons.IH by (metis append_Cons)
    qed
  next
    assume "\<exists>a b. c # s = a @ p @ b"
    then obtain a b where e: "c # s = a @ p @ b" by blast
    show "Contains (c # s) p"
    proof (cases a)
      case Nil
      with e have "take (length p) (c # s) = p" by simp
      then show ?thesis by (simp add: HasPrefix_def)
    next
      case (Cons d a')
      with e have "s = a' @ p @ b" by simp
      then show ?thesis using Cons.IH by auto
    qed
  qed
qed

text \<open>A text without line breaks that occurs in a sequence of lines occurs in one of them.\<close>

lemma Contains_lines:
  assumes "Contains (concat (map (\<lambda>l. l @ [CHR 0x0A]) ls)) p" "CHR 0x0A \<notin> set p" "p \<noteq> []"
  shows "\<exists>l \<in> set ls. Contains l p"
  using assms(1)
proof (induction ls)
  case Nil
  then show ?case using assms(3) by simp
next
  case (Cons l ls)
  let ?rest = "concat (map (\<lambda>l. l @ [CHR 0x0A]) ls)"
  obtain a b where ab: "l @ [CHR 0x0A] @ ?rest = a @ p @ b" using Cons.prems by (auto simp: Contains_iff)
  show ?case
  proof (cases "length (a @ p) \<le> length l")
    case True
    have "take (length l) (l @ [CHR 0x0A] @ ?rest) = take (length l) ((a @ p) @ b)" using ab by simp
    then have "l = (a @ p) @ take (length l - length (a @ p)) b" using True by simp
    then have "Contains l p" by (metis Contains_iff append.assoc)
    then show ?thesis by simp
  next
    case False
    show ?thesis
    proof (cases "length l < length a")
      case True
      have "drop (length l + 1) (l @ [CHR 0x0A] @ ?rest) = drop (length l + 1) (a @ p @ b)" using ab by simp
      then have "?rest = drop (length l + 1) a @ p @ b" using True by simp
      then have "Contains ?rest p" unfolding Contains_iff by blast
      then show ?thesis using Cons.IH by auto
    next
      case inside: False
      let ?k = "length l - length a"
      have k: "?k < length p" using False inside by simp
      have "(l @ [CHR 0x0A] @ ?rest) ! length l = (a @ p @ b) ! length l" by (rule arg_cong [OF ab])
      then have "CHR 0x0A = p ! ?k" using k inside by (simp add: nth_append)
      then show ?thesis using assms(2) k by (metis nth_mem)
    qed
  qed
qed

definition lines_of :: "string list \<Rightarrow> string" where
  "lines_of ls = concat (map (\<lambda>l. l @ [CHR 0x0A]) ls)"

lemma ToLower_lines: "ToLower (lines_of ls) = lines_of (map ToLower ls)"
proof -
  have "lower_char (CHR 0x0A) = CHR 0x0A" by (simp add: lower_char_def)
  then show ?thesis by (induction ls) (simp_all add: lines_of_def ToLower_def)
qed

text \<open>
  What holds of a process at any time: the buffer has lines the process wrote, and a recorded
  failure is the end of the process with such lines.
\<close>

definition proc_inv :: "string \<Rightarrow> realInstance \<Rightarrow> bool" where
  "proc_inv goos r \<longleftrightarrow>
     (\<exists>xs. pr_stderrBuf r = lines_of xs \<and> set xs \<subseteq> set (pr_written r)) \<and>
     set (pr_read r) \<subseteq> set (pr_written r) \<and> set (pr_pipe r) \<subseteq> set (pr_written r) \<and>
     (pr_waited r \<longrightarrow> pr_status r \<noteq> None) \<and> (pr_done r \<longrightarrow> pr_waited r) \<and> (\<not> pr_done r \<longrightarrow> pr_exitErr r = None) \<and>
     (\<forall>pe. pr_exitErr r = Some pe \<longrightarrow>
        (\<exists>w xs. pr_status r = Some (Some w) \<and> set xs \<subseteq> set (pr_written r) \<and>
           pe = ProcessError (exit_code w) (isOOMFailure goos w (lines_of xs)) (lines_of xs) (Some (wait_error w))))"

lemma proc_inv_scan:
  assumes "proc_inv goos r" "pr_read r = l # ls"
  shows "proc_inv goos (scan_line ovf pf l (r\<lparr>pr_read := ls\<rparr>))"
proof -
  obtain xs where xs: "pr_stderrBuf r = lines_of xs" "set xs \<subseteq> set (pr_written r)"
    using assms(1) by (auto simp: proc_inv_def)
  have "pr_stderrBuf r @ l @ [CHR 0x0A] = lines_of (xs @ [l])" by (simp add: xs(1) lines_of_def)
  moreover have "set (xs @ [l]) \<subseteq> set (pr_written r)" using assms xs(2) by (auto simp: proc_inv_def)
  ultimately have "\<exists>ys. pr_stderrBuf r @ l @ [CHR 0x0A] = lines_of ys \<and> set ys \<subseteq> set (pr_written r)" by blast
  with assms show ?thesis unfolding proc_inv_def scan_line_def by auto
qed

lemma proc_inv_step: "proc_step own goos ovf pf r r' \<Longrightarrow> proc_inv goos r \<Longrightarrow> proc_inv goos r'"
proof (induction rule: proc_step.induct)
  case (scans r l ls)
  then show ?case by (intro proc_inv_scan)
next
  case (writes r l)
  then show ?case unfolding proc_inv_def by (auto; blast)
next
  case (exit_recorded r)
  then show ?case
    unfolding proc_inv_def record_exit_def Let_def by (auto split: option.split)
qed (auto simp: proc_inv_def)

interpretation proc: step_invariant "\<lambda>r. r = newInstance" "proc_step own goos ovf pf" "proc_inv goos" for own goos ovf pf
proof
  show "r = newInstance \<Longrightarrow> proc_inv goos r" for r
    by (auto simp: proc_inv_def newInstance_def lines_of_def intro: exI [of _ "[]"])
  show "proc_inv goos r \<Longrightarrow> proc_step own goos ovf pf r r' \<Longrightarrow> proc_inv goos r'" for r r'
    by (rule proc_inv_step)
qed

lemma proc_reachable_inv: "proc_reachable own goos ovf pf r \<Longrightarrow> proc_inv goos r"
  unfolding proc_reachable_def using proc.inv_reachable by blast

lemma stopped_proc_step:
  "proc_step own goos ovf pf r r' \<Longrightarrow> pr_stopped r \<Longrightarrow> pr_exitErr r = None \<Longrightarrow> pr_stopped r' \<and> pr_exitErr r' = None"
  by (induction rule: proc_step.induct) (auto simp: scan_line_def record_exit_def)

text \<open>A process obeys the contract of an Instance.\<close>

lemma proc_step_done:
  "proc_step own goos ovf pf r r' \<Longrightarrow> \<not> pr_done r' \<Longrightarrow> pr_exitErr r' = pr_exitErr r"
  "proc_step own goos ovf pf r r' \<Longrightarrow> pr_done r \<Longrightarrow> pr_done r' \<and> pr_exitErr r' = pr_exitErr r"
  by (induction rule: proc_step.induct) (auto simp: scan_line_def record_exit_def)

interpretation real_inst: host_instance "\<lambda>r. r = newInstance" "proc_step own goos ovf pf" pr_done pr_exitErr for own goos ovf pf
  by unfold_locales (simp_all add: newInstance_def proc_step_done)

interpretation stopped: step_invariant "\<lambda>r. pr_stopped r \<and> pr_exitErr r = None" "proc_step own goos ovf pf"
  "\<lambda>r. pr_stopped r \<and> pr_exitErr r = None" for own goos ovf pf
  by unfold_locales (use stopped_proc_step in blast)+

lemma oomPatterns_lines: "p \<in> set oomPatterns \<Longrightarrow> CHR 0x0A \<notin> set p \<and> p \<noteq> []"
  by (auto simp: oomPatterns_def)

section \<open>Properties\<close>

text \<open>
  C23. A process failure is taken for lack of memory only on evidence: the process was killed by
  \<open>SIGKILL\<close> (on Linux), or a line it wrote to its error output has one of the known messages, in
  any letter case. And after \<open>Stop\<close> was called no failure is reported at all.
\<close>

theorem oom_has_evidence:
  assumes "proc_reachable own goos ovf pf r"
  shows "(\<forall>pe. pr_exitErr r = Some pe \<and> OOM pe \<longrightarrow>
      goos = ''linux'' \<and> pr_status r = Some (Some (Killed 9)) \<or>
      (\<exists>l \<in> set (pr_written r). \<exists>p \<in> set oomPatterns. Contains (ToLower l) p)) \<and>
    (pr_stopped r \<and> \<not> pr_done r \<longrightarrow> (\<forall>r'. (proc_step own goos ovf pf)\<^sup>*\<^sup>* r r' \<longrightarrow> pr_exitErr r' = None))"
proof (intro conjI allI impI)
  fix pe
  assume pe: "pr_exitErr r = Some pe \<and> OOM pe"
  obtain w xs where w: "pr_status r = Some (Some w)" "set xs \<subseteq> set (pr_written r)"
    "isOOMFailure goos w (lines_of xs)"
    using proc_reachable_inv [OF assms] pe by (auto simp: proc_inv_def)
  show "goos = ''linux'' \<and> pr_status r = Some (Some (Killed 9)) \<or>
      (\<exists>l \<in> set (pr_written r). \<exists>p \<in> set oomPatterns. Contains (ToLower l) p)"
  proof (cases "isOOMSignal goos w")
    case True
    then show ?thesis using w(1) by (simp add: isOOMSignal_def)
  next
    case False
    then obtain p where p: "p \<in> set oomPatterns" "Contains (lines_of (map ToLower xs)) p"
      using w(3) by (auto simp: isOOMFailure_def list_ex_iff ToLower_lines)
    then obtain l where "l \<in> set (map ToLower xs)" "Contains l p"
      using Contains_lines [of "map ToLower xs" p] oomPatterns_lines by (auto simp: lines_of_def)
    then show ?thesis using p(1) w(2) by auto
  qed
next
  fix r'
  assume "pr_stopped r \<and> \<not> pr_done r" "(proc_step own goos ovf pf)\<^sup>*\<^sup>* r r'"
  moreover have "\<not> pr_done r \<Longrightarrow> pr_exitErr r = None" using proc_reachable_inv [OF assms] by (simp add: proc_inv_def)
  ultimately show "pr_exitErr r' = None" using stopped.inv_steps by blast
qed

lemma proc_reachable_step: "proc_reachable own goos ovf pf r \<Longrightarrow> proc_step own goos ovf pf r r' \<Longrightarrow> proc_reachable own goos ovf pf r'"
  unfolding proc_reachable_def by (rule rtranclp.rtrancl_into_rtrancl)

lemma newInstance_reachable: "proc_reachable own goos ovf pf newInstance"
  by (simp add: proc_reachable_def)

text \<open>From the end of a process to its record.\<close>

lemma exit_reached:
  assumes "proc_reachable own goos ovf pf r" "pr_status r \<noteq> None" "\<not> pr_done r"
  shows "proc_reachable own goos ovf pf (record_exit goos (r\<lparr>pr_waited := True, pr_open := False\<rparr>))"
proof -
  have "proc_reachable own goos ovf pf (r\<lparr>pr_waited := True, pr_open := False\<rparr>)"
    using assms by (blast intro: proc_reachable_step wait_returns)
  then show ?thesis by (rule proc_reachable_step) (rule exit_recorded; use assms(3) in simp)
qed

definition oom_line :: string where
  "oom_line = ''CUDA error: out of memory''"

lemma oom_line_found: "Contains (ToLower oom_line) ''out of memory''"
  by (simp add: oom_line_def ToLower_def lower_char_def HasPrefix_def)

theorem oom_has_evidence_witness:
  "\<exists>r pe. proc_reachable (\<lambda>_. True) ''linux'' 0 (\<lambda>_. None) r \<and> pr_exitErr r = Some pe \<and> OOM pe \<and> pr_status r = Some (Some (Killed 9))"
proof -
  let ?k = "newInstance\<lparr>pr_status := Some (Some (Killed 9))\<rparr>"
  let ?r = "record_exit ''linux'' (?k\<lparr>pr_waited := True, pr_open := False\<rparr>)"
  have "proc_reachable (\<lambda>_. True) ''linux'' 0 (\<lambda>_. None) ?k"
    by (rule proc_reachable_step [OF newInstance_reachable exits]) (simp_all add: newInstance_def)
  then have r: "proc_reachable (\<lambda>_. True) ''linux'' 0 (\<lambda>_. None) ?r" by (rule exit_reached) (simp_all add: newInstance_def)
  obtain pe where pe: "pr_exitErr ?r = Some pe" "OOM pe"
    by (simp add: record_exit_def newInstance_def isOOMFailure_def isOOMSignal_def)
  then have "''linux'' = ''linux'' \<and> pr_status ?r = Some (Some (Killed 9)) \<or>
      (\<exists>l \<in> set (pr_written ?r). \<exists>p \<in> set oomPatterns. Contains (ToLower l) p)"
    using oom_has_evidence [OF r] by blast
  then have "pr_status ?r = Some (Some (Killed 9))" by (auto simp: record_exit_def newInstance_def)
  with r pe show ?thesis by blast
qed

text \<open>
  C38. The evidence can be lost: \<open>cmd.Wait\<close> runs beside the reading of the error output and closes
  the pipe when the process has ended, so there is a run in which the process wrote that it is out
  of memory and exited with code 1, but is recorded as a failure of another kind, on which Tuning
  aborts instead of trying less.
\<close>

theorem oom_message_can_be_lost:
  "\<exists>r pe. proc_reachable (\<lambda>_. True) ''linux'' 0 (\<lambda>_. None) r \<and> oom_line \<in> set (pr_written r) \<and>
     pr_status r = Some (Some (ExitStatus 1)) \<and> pr_exitErr r = Some pe \<and> \<not> IsOOM (Some (ErrProcess pe)) \<and>
     isOOMFailure ''linux'' (ExitStatus 1) (lines_of (pr_written r))"
proof -
  let ?a = "newInstance\<lparr>pr_pipe := [oom_line], pr_written := [oom_line]\<rparr>"
  let ?b = "?a\<lparr>pr_status := Some (Some (ExitStatus 1))\<rparr>"
  let ?r = "record_exit ''linux'' (?b\<lparr>pr_waited := True, pr_open := False\<rparr>)"
  have "proc_step (\<lambda>_. True) ''linux'' 0 (\<lambda>_. None) newInstance ?a"
    using writes [of newInstance "\<lambda>_. True" "''linux''" 0 "\<lambda>_. None" oom_line] by (simp add: newInstance_def)
  then have "proc_reachable (\<lambda>_. True) ''linux'' 0 (\<lambda>_. None) ?a" by (rule proc_reachable_step [OF newInstance_reachable])
  then have "proc_reachable (\<lambda>_. True) ''linux'' 0 (\<lambda>_. None) ?b"
    by (rule proc_reachable_step) (rule exits; simp add: newInstance_def)
  then have r: "proc_reachable (\<lambda>_. True) ''linux'' 0 (\<lambda>_. None) ?r" by (rule exit_reached) (simp_all add: newInstance_def)
  have "\<not> isOOMFailure ''linux'' (ExitStatus 1) []"
    by (simp add: isOOMFailure_def isOOMSignal_def oomPatterns_def ToLower_def)
  then obtain pe where pe: "pr_exitErr ?r = Some pe" "\<not> OOM pe" by (simp add: record_exit_def newInstance_def)
  have "isOOMFailure ''linux'' (ExitStatus 1) (lines_of [oom_line])"
  proof -
    obtain a b where "ToLower oom_line = a @ ''out of memory'' @ b" using oom_line_found Contains_iff by blast
    then have "ToLower (lines_of [oom_line]) = a @ ''out of memory'' @ b @ [CHR 0x0A]"
      unfolding ToLower_lines by (simp add: lines_of_def)
    then have "Contains (ToLower (lines_of [oom_line])) ''out of memory''" unfolding Contains_iff by blast
    then show ?thesis by (simp add: isOOMFailure_def oomPatterns_def)
  qed
  with r pe show ?thesis
    by (intro exI [of _ ?r] exI [of _ pe]) (simp add: record_exit_def)
qed

text \<open>
  C24. The verdict on a process is final when it is given: as long as \<open>Done\<close> is open \<open>Err\<close> is nil, and
  once it is closed it stays closed and \<open>Err\<close> returns the same at any later time, whatever else
  happens, a late \<open>Stop\<close>, the end of the context and error output still read included. So every
  goroutine that waits for \<open>Done\<close> and then asks for the error gets the same answer.
\<close>

theorem exit_verdict_final:
  assumes "proc_reachable own goos ovf pf r"
  shows "(\<not> pr_done r \<longrightarrow> pr_exitErr r = None) \<and>
    (\<forall>r'. pr_done r \<and> (proc_step own goos ovf pf)\<^sup>*\<^sup>* r r' \<longrightarrow> pr_done r' \<and> pr_exitErr r' = pr_exitErr r)"
proof (intro conjI impI allI)
  show "\<not> pr_done r \<Longrightarrow> pr_exitErr r = None"
    using assms unfolding proc_reachable_def by (rule real_inst.no_early_verdict [OF _ refl])
  fix r'
  assume a: "pr_done r \<and> (proc_step own goos ovf pf)\<^sup>*\<^sup>* r r'"
  note v = real_inst.verdict_final [OF conjunct2 [OF a] conjunct1 [OF a]]
  show "pr_done r'" by (rule conjunct1 [OF v])
  show "pr_exitErr r' = pr_exitErr r" by (rule conjunct2 [OF v])
qed

theorem exit_verdict_final_witness:
  "\<exists>(r :: realInstance) pe. pr_done r \<and> pr_exitErr r = Some pe \<and>
     pr_exitErr (r\<lparr>pr_stopped := True\<rparr>) = Some pe"
proof -
  let ?k = "newInstance\<lparr>pr_status := Some (Some (ExitStatus 1))\<rparr>"
  let ?r = "record_exit ''linux'' (?k\<lparr>pr_waited := True, pr_open := False\<rparr>)"
  have "proc_reachable (\<lambda>_. True) ''linux'' 0 (\<lambda>_. None) ?k"
    by (rule proc_reachable_step [OF newInstance_reachable exits]) (simp_all add: newInstance_def)
  then have r: "proc_reachable (\<lambda>_. True) ''linux'' 0 (\<lambda>_. None) ?r" by (rule exit_reached) (simp_all add: newInstance_def)
  obtain pe where pe: "pr_done ?r" "pr_exitErr ?r = Some pe" by (simp add: record_exit_def newInstance_def)
  have s: "(proc_step (\<lambda>_. True) ''linux'' 0 (\<lambda>_. None))\<^sup>*\<^sup>* ?r (?r\<lparr>pr_stopped := True\<rparr>)"
    by (rule r_into_rtranclp) (rule stop_called)
  note v = exit_verdict_final [OF r, THEN conjunct2, rule_format, OF conjI [OF pe(1) s]]
  have "pr_exitErr (?r\<lparr>pr_stopped := True\<rparr>) = Some pe" using conjunct2 [OF v] pe(2) by (rule trans)
  with pe show ?thesis by (intro exI conjI)
qed

text \<open>A process that has no end of its own, as long as it was not told to stop.\<close>

definition endless_inv :: "realInstance \<Rightarrow> bool" where
  "endless_inv r \<longleftrightarrow> pr_stopped r \<or>
     (pr_status r \<noteq> None \<longrightarrow> pr_ctxDone r \<and> pr_status r = Some (Some (Killed 9))) \<and>
     (pr_waited r \<longrightarrow> pr_status r \<noteq> None) \<and> (pr_done r \<longrightarrow> pr_waited r \<and> (\<exists>pe. pr_exitErr r = Some pe \<and> OOM pe))"

lemma endless_step: "proc_step (\<lambda>_. False) ''linux'' ovf pf r r' \<Longrightarrow> endless_inv r \<Longrightarrow> endless_inv r'"
  by (induction rule: proc_step.induct)
    (auto simp: endless_inv_def scan_line_def record_exit_def isOOMFailure_def isOOMSignal_def)

interpretation endless: step_invariant "\<lambda>r. r = newInstance" "proc_step (\<lambda>_. False) ''linux'' ovf pf" endless_inv for ovf pf
  by unfold_locales (simp add: endless_inv_def newInstance_def, rule endless_step)

text \<open>
  C37. The context of a launch is the life of its process, on Linux. Take a process that would run
  forever: it has no end of its own, and it was not told to stop. It has ended only if the context it
  was launched with is done, and then by \<open>SIGKILL\<close>; any failure recorded of it is one for lack of
  memory. And once the context is done, whatever happened before, the process can be killed and its
  end recorded, with \<open>WaitReady\<close> passing on lack of memory. Tuning launches the Instance it returns
  with the context of its budget and cancels that context when it returns.
\<close>

theorem launch_context_kills:
  assumes "proc_reachable (\<lambda>_. False) ''linux'' ovf pf r" "\<not> pr_stopped r"
  shows "(pr_status r \<noteq> None \<longrightarrow> pr_ctxDone r \<and> pr_status r = Some (Some (Killed 9))) \<and>
    (\<forall>pe. pr_exitErr r = Some pe \<longrightarrow> pr_ctxDone r \<and> OOM pe) \<and>
    (pr_ctxDone r \<longrightarrow> (\<exists>r' err. (proc_step (\<lambda>_. False) ''linux'' ovf pf)\<^sup>*\<^sup>* r r' \<and> pr_done r' \<and>
       pr_status r' = Some (Some (Killed 9)) \<and>
       WaitReady (pr_exitErr r') [InstDone] = Some (Some err) \<and> IsOOM (Some err)))"
proof -
  have e: "endless_inv r" using assms(1) unfolding proc_reachable_def using endless.inv_reachable by blast
  note status = e [unfolded endless_inv_def]
  have verdict: "pr_ctxDone r \<and> OOM pe" if "pr_exitErr r = Some pe" for pe
    using proc_reachable_inv [OF assms(1)] e assms(2) that by (auto simp: proc_inv_def endless_inv_def)
  have ended: "\<exists>r' err. (proc_step (\<lambda>_. False) ''linux'' ovf pf)\<^sup>*\<^sup>* r r' \<and> pr_done r' \<and>
      pr_status r' = Some (Some (Killed 9)) \<and>
      WaitReady (pr_exitErr r') [InstDone] = Some (Some err) \<and> IsOOM (Some err)" if "pr_ctxDone r"
  proof (cases "pr_done r")
    case True
    then obtain pe where "pr_exitErr r = Some pe" "OOM pe" "pr_status r = Some (Some (Killed 9))"
      using e assms(2) by (auto simp: endless_inv_def)
    with True show ?thesis by (intro exI [of _ r]) simp
  next
    case False
    let ?k = "r\<lparr>pr_status := Some (Some (Killed 9))\<rparr>"
    let ?w = "?k\<lparr>pr_waited := True, pr_open := False\<rparr>"
    let ?r = "record_exit ''linux'' ?w"
    have "(proc_step (\<lambda>_. False) ''linux'' ovf pf)\<^sup>*\<^sup>* r ?k"
    proof (cases "pr_status r = None")
      case True
      then show ?thesis using context_kills [OF that] by blast
    next
      case False
      then have "?k = r" using e assms(2) by (simp add: endless_inv_def)
      then show ?thesis by simp
    qed
    moreover have "proc_step (\<lambda>_. False) ''linux'' ovf pf ?k ?w" by (rule wait_returns) simp
    moreover have "proc_step (\<lambda>_. False) ''linux'' ovf pf ?w ?r" using False by (intro exit_recorded) simp_all
    ultimately have "(proc_step (\<lambda>_. False) ''linux'' ovf pf)\<^sup>*\<^sup>* r ?r" by (meson rtranclp.rtrancl_into_rtrancl)
    then show ?thesis
      using assms(2) by (intro exI [of _ ?r]) (simp add: record_exit_def isOOMFailure_def isOOMSignal_def)
  qed
  show ?thesis using e assms(2) verdict ended by (auto simp: endless_inv_def)
qed

theorem launch_context_kills_witness:
  "\<exists>(r :: realInstance) (r' :: realInstance) err. pr_status r = None \<and> pr_ctxDone r \<and>
     (proc_step (\<lambda>_. False) ''linux'' 0 (\<lambda>_. None))\<^sup>*\<^sup>* r r' \<and>
     WaitReady (pr_exitErr r') [InstDone] = Some (Some err) \<and> IsOOM (Some err)"
proof -
  let ?r = "newInstance\<lparr>pr_ctxDone := True\<rparr>"
  have r: "proc_reachable (\<lambda>_. False) ''linux'' 0 (\<lambda>_. None) ?r"
    by (rule proc_reachable_step [OF newInstance_reachable context_done])
  have s: "\<not> pr_stopped ?r" "pr_ctxDone ?r" "pr_status ?r = None" by (simp_all add: newInstance_def)
  from launch_context_kills [OF r s(1)] s(2,3) show ?thesis by blast
qed

text \<open>The position of a port flag.\<close>

lemma index_of_SomeD: "index_of P xs = Some i \<Longrightarrow> i < length xs \<and> P (xs ! i) \<and> (\<forall>j < i. \<not> P (xs ! j))"
proof (induction xs arbitrary: i)
  case (Cons x xs)
  show ?case
  proof (cases "P x")
    case False
    with Cons.prems obtain k where k: "index_of P xs = Some k" "i = Suc k" by auto
    with Cons.IH [OF k(1)] False show ?thesis by (auto simp: less_Suc_eq_0_disj)
  qed (use Cons.prems in auto)
qed simp

lemma index_of_append: "index_of P xs = None \<Longrightarrow> index_of P (xs @ ys) = map_option (\<lambda>i. length xs + i) (index_of P ys)"
  by (induction xs; cases "index_of P ys") (auto split: if_splits)

lemma index_of_update:
  assumes "index_of P xs = Some i" "i < j"
  shows "index_of P (xs[j := v]) = Some i"
  using assms
proof (induction xs arbitrary: i j)
  case (Cons x xs)
  then show ?case by (cases j) (auto split: if_splits)
qed simp

text \<open>Decimal numbers read back.\<close>

lemma Atoi_Itoa:
  assumes "0 < p" "p \<le> max_int64"
  shows "Atoi (Itoa p) = (p, True)"
proof -
  obtain c s where cs: "dec_string (nat p) = c # s" "list_all is_digit (c # s)"
    using dec_string_digits [of "nat p"] by (cases "dec_string (nat p)") auto
  then have "c \<noteq> CHR ''-''" "c \<noteq> CHR ''+''" by (auto simp: is_digit_def)
  moreover have "digits_val (c # s) = nat p" using digits_val_dec_string [of "nat p"] cs(1) by simp
  moreover have "Itoa p = c # s" using assms(1) cs(1) by (simp add: Itoa_def)
  ultimately show ?thesis using assms cs(2) by (simp add: Atoi_def Let_def)
qed

text \<open>
  C32. The port a process is launched on is the one its command line says: the value after the
  first port flag reads as the port \<open>Launch\<close> takes for the URL, and the rest of the command line
  is untouched. The exception is a command line that ends in its first port flag: the flag is
  then followed by a second one, not by a port.
\<close>

theorem prepareArgv_port:
  assumes "prepareArgv (Inr q) argv = Inr (final, port)" "0 < q" "q \<le> 65535"
  shows "0 < port \<and> take 1 final = take 1 argv \<and>
    (case index_of is_port_flag argv of
       None \<Rightarrow> final = argv @ [''--port'', Itoa port] \<and> Atoi (final ! (length argv + 1)) = (port, True)
     | Some i \<Rightarrow>
         if i + 1 < length argv
         then final = argv[i + 1 := final ! (i + 1)] \<and> index_of is_port_flag final = Some i \<and>
              Atoi (final ! (i + 1)) = (port, True)
         else final ! (i + 1) = ''--port'')"
proof -
  have q: "Atoi (Itoa q) = (q, True)" using assms(2,3) by (intro Atoi_Itoa) (simp_all add: max_int64_def)
  have ne: "argv \<noteq> []" using assms(1) by (auto simp: prepareArgv_def)
  show ?thesis
  proof (cases "index_of is_port_flag argv")
    case None
    then have "final = argv @ [''--port'', Itoa q]" "port = q" using assms(1) ne by (auto simp: prepareArgv_def)
    with None q ne assms(2) show ?thesis by (simp add: nth_append Suc_le_eq)
  next
    case (Some i)
    note i = index_of_SomeD [OF Some]
    show ?thesis
    proof (cases "i + 1 < length argv")
      case True
      obtain p ok where p: "Atoi (argv ! (i + 1)) = (p, ok)" by fastforce
      show ?thesis
      proof (cases "ok \<and> p > 0")
        case yes: True
        then have "final = argv" "port = p" using assms(1) ne Some True p by (auto simp: prepareArgv_def)
        with Some True yes p show ?thesis by simp
      next
        case False
        then have f: "final = argv[i + 1 := Itoa q]" "port = q"
          using assms(1) ne Some True p by (auto simp: prepareArgv_def split: if_splits)
        moreover have "take 1 final = take 1 argv" unfolding f(1) by (simp add: take_update_cancel)
        ultimately show ?thesis using Some True q assms(2) index_of_update [OF Some, of "i + 1"] by simp
      qed
    next
      case False
      then have "final = argv @ [''--port'', Itoa q]" "port = q" using assms(1) ne Some by (auto simp: prepareArgv_def)
      moreover have "i + 1 = length argv" using False i by simp
      ultimately show ?thesis using Some False ne assms(2) by (simp add: nth_append Suc_le_eq)
    qed
  qed
qed

theorem prepareArgv_port_witness:
  "prepareArgv (Inr 4000) [''llama-server'', ''--port'', ''0''] = Inr ([''llama-server'', ''--port'', Itoa 4000], 4000) \<and>
   Atoi (Itoa 4000) = (4000, True)"
proof -
  have r: "prepareArgv (Inr 4000) [''llama-server'', ''--port'', ''0''] = Inr ([''llama-server'', ''--port'', Itoa 4000], 4000)"
    by (simp add: prepareArgv_def is_port_flag_def Atoi_def Let_def is_digit_def digits_val_def digit_val_def)
  from prepareArgv_port [OF r] show ?thesis using r by (simp add: is_port_flag_def)
qed

end
