(* ===== verification/Fake_Host.thy ===== *)
theory Fake_Host
  imports Tuning Ollama_Shim
begin

text \<open>
  The test double of the machine, \<open>src/internal/host/fake.go\<close>: its settings, the record it keeps
  of launches and Instances, the answers of the \<open>llama-server\<close> it imitates, and its Instances.
  Each method takes the one lock for a moment and copies what it takes or gives out, so a method
  is a function of the host; slices are values here, which is what the copies make of them. The
  double is also a machine for Tuning, and its answers go through the Ollama endpoints.
\<close>

section \<open>The answers\<close>

text \<open>A response as it is on the wire: status, headers and the bytes written.\<close>

record mock_response =
  mr_status :: int
  mr_header :: "(string \<times> string) list"
  mr_body :: string

type_synonym mock_handler = "string \<Rightarrow> mock_response"

definition hello_json :: string where
  "hello_json =
     ''{\"id\":\"chatcmpl-fake\",\"object\":\"chat.completion.chunk\",\"created\":1700000000,\"model\":\"fake\",'' @
     ''\"choices\":[{\"index\":0,\"delta\":{\"role\":\"assistant\",\"content\":\"Hello\"},\"finish_reason\":null}]}''"

definition world_json :: string where
  "world_json =
     ''{\"id\":\"chatcmpl-fake\",\"object\":\"chat.completion.chunk\",\"created\":1700000000,\"model\":\"fake\",'' @
     ''\"choices\":[{\"index\":0,\"delta\":{\"content\":\" world!\"},\"finish_reason\":null}]}''"

definition stop_json :: string where
  "stop_json =
     ''{\"id\":\"chatcmpl-fake\",\"object\":\"chat.completion.chunk\",\"created\":1700000000,\"model\":\"fake\",'' @
     ''\"choices\":[{\"index\":0,\"delta\":{},\"finish_reason\":\"stop\"}]}''"

definition mock_chunks :: "string list" where
  "mock_chunks =
     map (\<lambda>d. ''data: '' @ d @ [CHR 0x0A, CHR 0x0A]) [hello_json, world_json, stop_json, ''[DONE]'']"

text \<open>
  The chunks written before the client goes away; \<open>gone i\<close> tells whether its context is done when
  chunk \<open>i\<close> is due.
\<close>

fun write_chunks :: "(nat \<Rightarrow> bool) \<Rightarrow> nat \<Rightarrow> string list \<Rightarrow> string" where
  "write_chunks gone i [] = []"
| "write_chunks gone i (chunk # chunks) =
     (if gone i then [] else chunk @ write_chunks gone (i + 1) chunks)"

definition json_header :: "(string \<times> string) list" where
  "json_header = [(''Content-Type'', ''application/json'')]"

text \<open>
  \<open>DefaultMockHandler\<close>; \<open>flush\<close>: the writer is an \<open>http.Flusher\<close>. Where it is not, the status and
  the headers are already sent when \<open>http.Error\<close> is called, which then only writes its text.
\<close>

definition DefaultMockHandler :: "bool \<Rightarrow> (nat \<Rightarrow> bool) \<Rightarrow> mock_handler" where
  "DefaultMockHandler flush gone path =
     (if path = ''/health'' then
        \<lparr>mr_status = 200, mr_header = json_header, mr_body = ''{\"status\":\"ok\"}''\<rparr>
      else if path = ''/v1/chat/completions'' then
        \<lparr>mr_status = 200,
         mr_header = [(''Content-Type'', ''text/event-stream''), (''Cache-Control'', ''no-cache''),
           (''Connection'', ''keep-alive'')],
         mr_body = (if \<not> flush then ''Streaming unsupported!'' @ [CHR 0x0A] else write_chunks gone 0 mock_chunks)\<rparr>
      else if path = ''/v1/completions'' then
        \<lparr>mr_status = 200, mr_header = json_header,
         mr_body = ''{\"id\":\"cmpl-fake\",\"object\":\"text_completion\",\"created\":1700000000,\"model\":\"fake\",'' @
           ''\"choices\":[{\"text\":\"Hello world!\",\"index\":0,\"finish_reason\":\"stop\"}]}''\<rparr>
      else if path = ''/v1/embeddings'' then
        \<lparr>mr_status = 200, mr_header = json_header,
         mr_body = ''{\"object\":\"list\",\"data\":[{\"object\":\"embedding\",\"index\":0,\"embedding\":[0.1,0.2,0.3]}],'' @
           ''\"model\":\"fake\",\"usage\":{\"prompt_tokens\":2,\"total_tokens\":2}}''\<rparr>
      else
        \<lparr>mr_status = 404,
         mr_header = [(''Content-Type'', ''text/plain; charset=utf-8''), (''X-Content-Type-Options'', ''nosniff'')],
         mr_body = ''404 page not found'' @ [CHR 0x0A]\<rparr>)"

section \<open>Instances\<close>

text \<open>An Instance: its server, whether that is open, whether \<open>done\<close> is closed, and \<open>once\<close>.\<close>

record fakeInstance =
  fin_handler :: mock_handler
  fin_url :: string
  fin_open :: bool
  fin_done :: bool
  fin_once :: bool
  fin_err :: "go_error option"

definition fresh_instance :: "mock_handler \<Rightarrow> string \<Rightarrow> fakeInstance" where
  "fresh_instance handler url =
     \<lparr>fin_handler = handler, fin_url = url, fin_open = True, fin_done = False, fin_once = False, fin_err = None\<rparr>"

definition fake_WaitReady :: "go_error option \<Rightarrow> fakeInstance \<Rightarrow> go_error option" where
  "fake_WaitReady ctxErr fi = (case ctxErr of Some err \<Rightarrow> Some err | None \<Rightarrow> None)"

definition fake_allocation :: Allocation where
  "fake_allocation = \<lparr>VRAM = 1024 * 1024 * 1024, RAM = 512 * 1024 * 1024\<rparr>"

definition fake_ObservedAllocation :: "fakeInstance \<Rightarrow> Allocation" where
  "fake_ObservedAllocation fi = fake_allocation"

definition fake_Stop :: "fakeInstance \<Rightarrow> go_error option \<times> fakeInstance" where
  "fake_Stop fi =
     (None, if fin_once fi then fi else fi\<lparr>fin_once := True, fin_open := False, fin_done := True\<rparr>)"

definition fake_URL :: "fakeInstance \<Rightarrow> string" where "fake_URL fi = fin_url fi"
definition fake_Done :: "fakeInstance \<Rightarrow> bool" where "fake_Done fi = fin_done fi"
definition fake_Err :: "fakeInstance \<Rightarrow> go_error option" where "fake_Err fi = fin_err fi"

section \<open>The host\<close>

text \<open>Instances are named by their place in the list of Instances, which only grows.\<close>

record FakeHost =
  fk_vramBudget :: int
  fk_ramBudget :: int
  fk_layerCost :: int
  fk_fingerprint :: string
  fk_accelerators :: "Accelerator list"
  fk_launches :: "string list list"
  fk_instances :: "fakeInstance list"
  fk_onLaunch :: "(string list \<Rightarrow> (go_error, mock_handler) res) option"

definition NewFakeHost :: FakeHost where
  "NewFakeHost =
     (let vram = 24 * 1024 * 1024 * 1024
      in \<lparr>fk_vramBudget = vram, fk_ramBudget = 64 * 1024 * 1024 * 1024, fk_layerCost = 500 * 1024 * 1024,
          fk_fingerprint = ''fake-host-fingerprint'',
          fk_accelerators = [\<lparr>acc_ID = ''gpu:0'', acc_Name = ''Fake GPU 0'', acc_TotalMemory = vram\<rparr>],
          fk_launches = [], fk_instances = [], fk_onLaunch = None\<rparr>)"

definition fake_Accelerators :: "FakeHost \<Rightarrow> Accelerator list" where
  "fake_Accelerators f = fk_accelerators f"

definition SetAccelerators :: "Accelerator list \<Rightarrow> FakeHost \<Rightarrow> FakeHost" where
  "SetAccelerators accs f = f\<lparr>fk_accelerators := accs\<rparr>"

definition SetBudget :: "int \<Rightarrow> int \<Rightarrow> int \<Rightarrow> FakeHost \<Rightarrow> FakeHost" where
  "SetBudget vram ram layerCost f =
     (let f = f\<lparr>fk_vramBudget := vram, fk_ramBudget := ram, fk_layerCost := layerCost\<rparr>
      in case fk_accelerators f of
           [a] \<Rightarrow> if acc_ID a = ''gpu:0'' then f\<lparr>fk_accelerators := [a\<lparr>acc_TotalMemory := vram\<rparr>]\<rparr> else f
         | _ \<Rightarrow> f)"

definition VRAMBudget :: "FakeHost \<Rightarrow> int" where "VRAMBudget f = fk_vramBudget f"
definition RAMBudget :: "FakeHost \<Rightarrow> int" where "RAMBudget f = fk_ramBudget f"
definition LayerCost :: "FakeHost \<Rightarrow> int" where "LayerCost f = fk_layerCost f"
definition fake_Fingerprint :: "FakeHost \<Rightarrow> string" where "fake_Fingerprint f = fk_fingerprint f"

definition SetFingerprint :: "string \<Rightarrow> FakeHost \<Rightarrow> FakeHost" where
  "SetFingerprint fp f = f\<lparr>fk_fingerprint := fp\<rparr>"

definition SetOnLaunch ::
  "(string list \<Rightarrow> (go_error, mock_handler) res) option \<Rightarrow> FakeHost \<Rightarrow> FakeHost"
where
  "SetOnLaunch fn f = f\<lparr>fk_onLaunch := fn\<rparr>"

definition Launches :: "FakeHost \<Rightarrow> string list list" where
  "Launches f = fk_launches f"

definition Instances :: "FakeHost \<Rightarrow> fakeInstance list" where
  "Instances f = fk_instances f"

text \<open>\<^const>\<open>None\<close> is \<open>nil\<close>, where nothing has been launched.\<close>

definition LastLaunch :: "FakeHost \<Rightarrow> string list option" where
  "LastLaunch f = (if fk_launches f = [] then None else Some (fk_launches f ! (length (fk_launches f) - 1)))"

text \<open>
  \<open>Launch\<close> takes the lock twice; the first section records the command line and reads the hook.
  \<open>mock\<close> is the handler without a hook, \<open>srv\<close> what parsing the URL of the new server yields.
\<close>

definition note_launch :: "string list \<Rightarrow> FakeHost \<Rightarrow> FakeHost" where
  "note_launch argv f = f\<lparr>fk_launches := fk_launches f @ [argv]\<rparr>"

definition launch_handler :: "mock_handler \<Rightarrow> string list \<Rightarrow> FakeHost \<Rightarrow> (go_error, mock_handler) res" where
  "launch_handler mock argv f = (case fk_onLaunch f of Some h \<Rightarrow> h argv | None \<Rightarrow> Inr mock)"

definition fake_Launch ::
  "mock_handler \<Rightarrow> (go_error, string) res \<Rightarrow> string list \<Rightarrow> FakeHost \<Rightarrow> (go_error, nat) res \<times> FakeHost"
where
  "fake_Launch mock srv argv f =
     (let f = note_launch argv f
      in case launch_handler mock argv f of
           Inl err \<Rightarrow> (Inl err, f)
         | Inr handler \<Rightarrow>
             (case srv of
                Inl err \<Rightarrow> (Inl (ErrWrap ''parsing fake server url'' err), f)
              | Inr url \<Rightarrow>
                  (Inr (length (fk_instances f)),
                   f\<lparr>fk_instances := fk_instances f @ [fresh_instance handler url]\<rparr>)))"

definition stop_fake :: "nat \<Rightarrow> FakeHost \<Rightarrow> go_error option \<times> FakeHost" where
  "stop_fake i f =
     (let (err, fi) = fake_Stop (fk_instances f ! i) in (err, f\<lparr>fk_instances := (fk_instances f)[i := fi]\<rparr>))"

text \<open>
  The double as the machine of Tuning: launching, then waiting for readiness under a context
  whose error at launch \<open>n\<close> is \<open>ctxErr n\<close>. Contexts, clock and files are those of \<open>e\<close>.
\<close>

definition fake_machine :: "mock_handler \<Rightarrow> (nat \<Rightarrow> go_error option) \<Rightarrow> FakeHost \<Rightarrow> machine \<Rightarrow> machine" where
  "fake_machine mock ctxErr f e =
     e\<lparr>e_fingerprint := fake_Fingerprint f,
       e_launch := \<lambda>n argv.
         (case fake_Launch mock (Inr ''http://127.0.0.1'') argv f of
            (Inl err, _) \<Rightarrow> LaunchFails err
          | (Inr i, f') \<Rightarrow>
              (case fake_WaitReady (ctxErr n) (fk_instances f' ! i) of Some err \<Rightarrow> NotReady err | None \<Rightarrow> Ready)),
       e_stop := \<lambda>_. None,
       e_alloc := \<lambda>_. fake_allocation\<rparr>"

section \<open>Lemmas\<close>

text \<open>The lines \<open>bufio.Scanner\<close> reads: without their ends, and no empty one after the last end.\<close>

fun scan_lines :: "string \<Rightarrow> string \<Rightarrow> string list" where
  "scan_lines acc [] = (if acc = [] then [] else [TrimSuffix (rev acc) [CHR 0x0D]])"
| "scan_lines acc (c # s) =
     (if c = CHR 0x0A then TrimSuffix (rev acc) [CHR 0x0D] # scan_lines [] s else scan_lines (c # acc) s)"

lemma scan_lines_end:
  "CHR 0x0A \<notin> set l \<Longrightarrow> scan_lines acc (l @ CHR 0x0A # s) = TrimSuffix (rev acc @ l) [CHR 0x0D] # scan_lines [] s"
  by (induction l arbitrary: acc) auto

lemma mock_texts:
  "set hello_json \<subseteq> - {CHR 0x0A}" "set world_json \<subseteq> - {CHR 0x0A}" "set stop_json \<subseteq> - {CHR 0x0A}"
  "last hello_json = CHR ''}''" "last world_json = CHR ''}''" "last stop_json = CHR ''}''"
  "hello_json \<noteq> []" "world_json \<noteq> []" "stop_json \<noteq> []"
  by (simp_all add: hello_json_def world_json_def stop_json_def)

lemma TrimSuffix_other: "s = [] \<or> last s \<noteq> c \<Longrightarrow> TrimSuffix s [c] = s"
  by (cases s rule: rev_cases) (auto simp: TrimSuffix_def HasSuffix_def)

lemma mock_lines:
  "scan_lines [] (mr_body (DefaultMockHandler True (\<lambda>_. False) ''/v1/chat/completions'')) =
     [''data: '' @ hello_json, [], ''data: '' @ world_json, [], ''data: '' @ stop_json, [], ''data: [DONE]'', []]"
proof -
  have l: "scan_lines [] ((''data: '' @ t) @ CHR 0x0A # CHR 0x0A # s) = (''data: '' @ t) # [] # scan_lines [] s"
    if "set t \<subseteq> - {CHR 0x0A}" "last t \<noteq> CHR 0x0D" "t \<noteq> []" for t s
  proof -
    have "CHR 0x0A \<notin> set (''data: '' @ t)" using that(1) by auto
    moreover have "TrimSuffix (''data: '' @ t) [CHR 0x0D] = ''data: '' @ t"
      by (rule TrimSuffix_other) (use that in simp)
    ultimately have "scan_lines [] ((''data: '' @ t) @ CHR 0x0A # CHR 0x0A # s) =
        (''data: '' @ t) # scan_lines [] (CHR 0x0A # s)"
      using scan_lines_end [of "''data: '' @ t" "[]" "CHR 0x0A # s"] by simp
    then show ?thesis by (simp add: TrimSuffix_other)
  qed
  show ?thesis
    using l [OF mock_texts(1)] l [OF mock_texts(2)] l [OF mock_texts(3)] l [of "''[DONE]''" "[]"] mock_texts
    by (simp add: DefaultMockHandler_def mock_chunks_def)
qed

text \<open>What the texts of the chunks denote.\<close>

definition mock_value :: "(string \<times> json) list \<Rightarrow> json \<Rightarrow> json" where
  "mock_value delta finish =
     JObj [(''id'', JStr ''chatcmpl-fake''), (''object'', JStr ''chat.completion.chunk''), (''created'', JInt 1700000000),
       (''model'', JStr ''fake''),
       (''choices'', JArr [JObj [(''index'', JInt 0), (''delta'', JObj delta), (''finish_reason'', finish)]])]"

definition parses_mock :: "(string \<Rightarrow> json option) \<Rightarrow> bool" where
  "parses_mock parse \<longleftrightarrow>
     parse hello_json = Some (mock_value [(''role'', JStr ''assistant''), (''content'', JStr ''Hello'')] JNull) \<and>
     parse world_json = Some (mock_value [(''content'', JStr '' world!'')] JNull) \<and>
     parse stop_json = Some (mock_value [] (JStr ''stop''))"

lemma data_event:
  assumes "t \<noteq> []" "last t = CHR ''}''"
  shows "line_event parse (''data: '' @ t) =
    (case Option.bind (parse t) dec_chunk of Some c \<Rightarrow> Chunk c | None \<Rightarrow> Skip)"
  using assms by (intro event_text_line) (auto simp: event_text_def is_space_def)

lemma mock_chunk:
  "dec_chunk (mock_value [(''role'', JStr ''assistant''), (''content'', JStr s)] JNull) =
     Some \<lparr>ch_Choices = [(s, None)], ch_Usage = None\<rparr>"
  "dec_chunk (mock_value [(''content'', JStr s)] JNull) = Some \<lparr>ch_Choices = [(s, None)], ch_Usage = None\<rparr>"
  "dec_chunk (mock_value [] (JStr f)) = Some \<lparr>ch_Choices = [([], Some f)], ch_Usage = None\<rparr>"
  by (simp_all add: mock_value_def dec_chunk_def dec_field_def dec_list_def dec_choice_def dec_delta_def decoded_def
      EqualFold_def ToLower_def lower_char_def)

lemma mock_events:
  assumes "parses_mock parse"
  shows "line_event parse (''data: '' @ hello_json) = Chunk \<lparr>ch_Choices = [(''Hello'', None)], ch_Usage = None\<rparr>"
    and "line_event parse (''data: '' @ world_json) = Chunk \<lparr>ch_Choices = [('' world!'', None)], ch_Usage = None\<rparr>"
    and "line_event parse (''data: '' @ stop_json) = Chunk \<lparr>ch_Choices = [([], Some ''stop'')], ch_Usage = None\<rparr>"
  using assms data_event [OF mock_texts(7,4)] data_event [OF mock_texts(8,5)] data_event [OF mock_texts(9,6)]
  by (simp_all add: parses_mock_def mock_chunk)

text \<open>An Instance of the double obeys the contract of an Instance; its one change is being stopped.\<close>

interpretation fake_inst: host_instance "\<lambda>fi. fi = fresh_instance handler url" "\<lambda>fi fi'. fi' = snd (fake_Stop fi)"
  fake_Done fake_Err for handler url
  by unfold_locales (simp_all add: fresh_instance_def fake_Stop_def fake_Done_def fake_Err_def)

text \<open>The double with a hook that has a memory budget is a machine limited by its memory.\<close>

lemma fake_memory_limited:
  assumes "\<And>cfg. launch_handler mock (launch_argv (s_config s) (s_slotsPerInstance s) m cfg) f =
      (if fits (CtxLen cfg) (Offload cfg) then Inr h else Inl (ErrProcess (ProcessError code True se None)))"
    and "\<And>c l l'. fits c l \<Longrightarrow> l' \<le> l \<Longrightarrow> fits c l'" "\<And>n. ctxErr n = None" "\<And>t. e_budget e t = None"
  shows "memory_limited (fake_machine mock ctxErr f e) m s fits"
proof -
  have "launch_handler mock argv (note_launch argv f) = launch_handler mock argv f" for argv
    by (simp add: launch_handler_def note_launch_def)
  then show ?thesis
    using assms unfolding memory_limited_def
    by (auto simp: fake_machine_def fake_Launch_def fake_WaitReady_def Let_def)
qed

section \<open>Properties\<close>

text \<open>
  A chat request answered by the imitated \<open>llama-server\<close> comes out of the Ollama endpoint whole:
  streamed, the client gets \<open>Hello\<close>, then \<open> world!\<close>, then the final chunk; collected, the single
  response says \<open>Hello world!\<close>. Either way it is done for the reason \<open>stop\<close> after two tokens. The
  parser of JSON texts is assumed to read the three chunks as what they denote.
\<close>

theorem fake_chat_end_to_end:
  assumes "parses_mock parse"
  shows "let b = \<lparr>sb_lines = scan_lines [] (mr_body (DefaultMockHandler True (\<lambda>_. False) ''/v1/chat/completions'')),
                 sb_err = \<lambda>_. None\<rparr>
    in \<exists>h w final single.
      relay parse True (c\<lparr>se_stream := True\<rparr>) ld tick b = Reply StatusOK ''application/x-ndjson'' [h, w, final] \<and>
      map chunk_content [h, w, final] = [''Hello'', '' world!'', []] \<and>
      relay parse True (c\<lparr>se_stream := False\<rparr>) ld tick b = Reply StatusOK ''application/json'' [single] \<and>
      chunk_content single = ''Hello world!'' \<and>
      (\<forall>j \<in> {final, single}. member ''done'' j = Some (JBool True) \<and> member ''done_reason'' j = Some (JStr ''stop'') \<and>
         member ''eval_count'' j = Some (JInt 2))"
  by (simp add: mock_lines mock_events [OF assms, simplified] end_events stream_defs)

text \<open>A parser that knows the three chunks.\<close>

definition mock_parser :: "string \<Rightarrow> json option" where
  "mock_parser s =
     (if s = hello_json then Some (mock_value [(''role'', JStr ''assistant''), (''content'', JStr ''Hello'')] JNull)
      else if s = world_json then Some (mock_value [(''content'', JStr '' world!'')] JNull)
      else if s = stop_json then Some (mock_value [] (JStr ''stop''))
      else None)"

theorem fake_chat_end_to_end_witness:
  "\<exists>single. relay mock_parser True (hi_env\<lparr>se_stream := False\<rparr>) 0 0
       \<lparr>sb_lines = scan_lines [] (mr_body (DefaultMockHandler True (\<lambda>_. False) ''/v1/chat/completions'')),
        sb_err = \<lambda>_. None\<rparr> = Reply StatusOK ''application/json'' [single] \<and> chunk_content single = ''Hello world!''"
proof -
  have "parses_mock mock_parser"
    unfolding parses_mock_def mock_parser_def by (simp add: hello_json_def world_json_def stop_json_def)
  from fake_chat_end_to_end [OF this, of hi_env 0 0] show ?thesis unfolding Let_def by blast
qed

text \<open>
  On the double as it comes, without a hook, Tuning ends with its first probe: one launch, with
  the context length the Model asks for and all layers offloaded, and an entry that has this
  configuration, the fingerprint of the double and its fixed allocation. So a test that counts
  launches sees exactly one for a Model that was not tuned before.
\<close>

theorem fake_tunes_first_probe:
  assumes "fk_onLaunch f = None" "\<And>n. ctxErr n = None" "\<And>t. e_budget e t = None"
  shows "\<exists>w' entry. tune (fake_machine mock ctxErr f e) m w = Some (Inr (length (w_launches w)), w') \<and>
    w_launches w' = w_launches w @ [launch_argv (s_config (w_sup w)) (s_slotsPerInstance (w_sup w)) m
       \<lparr>CtxLen = requested_ctx m, Offload = max_offload m\<rparr>] \<and>
    s_tuned (w_sup w') (m_ID m) = Some entry \<and> te_ResultingCtx entry = requested_ctx m \<and>
    te_Offload entry = max_offload m \<and> te_Fingerprint entry = fk_fingerprint f \<and> te_Allocation entry = fake_allocation"
proof -
  let ?e = "fake_machine mock ctxErr f e"
  let ?cfg = "\<lparr>CtxLen = requested_ctx m, Offload = max_offload m\<rparr>"
  let ?w0 = "tune_start ?e m w"
  let ?w1 = "set_progress ?cfg (?w0\<lparr>w_tick := w_tick ?w0 + 1\<rparr>)"
  have b: "budget_check ?e m c v = (None, v\<lparr>w_tick := w_tick v + 1\<rparr>)" for c v
    using assms(3) by (simp add: budget_check_def fake_machine_def)
  have "e_launch ?e n argv = Ready" for n argv
    using assms(1,2) by (simp add: fake_machine_def fake_Launch_def launch_handler_def note_launch_def fake_WaitReady_def Let_def)
  then obtain w2 where l: "launchConfig BudgetCtx ?e m ?cfg ?w1 = (Inr (length (w_launches ?w1)), w2)"
    "w_launches w2 = w_launches ?w1 @ [launch_argv (s_config (w_sup ?w1)) (s_slotsPerInstance (w_sup ?w1)) m ?cfg]"
    by (simp add: launchConfig_def Let_def)
  have w: "w_launches ?w1 = w_launches w" "s_config (w_sup ?w1) = s_config (w_sup w)"
    "s_slotsPerInstance (w_sup ?w1) = s_slotsPerInstance (w_sup w)"
    by (simp_all add: set_progress_def tune_start_def evictAllResidentInstances_def start_progress_def Let_def)
  have "tune ?e m w = map_option (\<lambda>(r, w). (r, tune_end w))
      (tune_ladder ?e m (requested_ctx m) (ladder (requested_ctx m)) None ?w0)"
    by (simp add: tune_def tune_start_def Let_def)
  then have "tune ?e m w = Some (Inr (length (w_launches w)),
      tune_end (record_entry ?e m (requested_ctx m) ?cfg (length (w_launches w)) w2))"
    using b l(1) w(1) by (simp add: ladder_eq tune_ctx_def Let_def)
  then show ?thesis
    using l(2) w by (simp add: start_progress_def record_entry_def entry_of_def fake_machine_def fake_Fingerprint_def Let_def)
qed

theorem fake_tunes_first_probe_witness:
  "\<exists>w'. tune (fake_machine (DefaultMockHandler True (\<lambda>_. False)) (\<lambda>_. None) NewFakeHost sample_machine) sample_model sample_world =
     Some (Inr 0, w') \<and> length (w_launches w') = 1"
proof -
  have "fk_onLaunch NewFakeHost = None" "e_budget sample_machine t = None" for t
    by (simp_all add: NewFakeHost_def sample_machine_def Let_def)
  from fake_tunes_first_probe [OF this(1) refl this(2), of "DefaultMockHandler True (\<lambda>_. False)" sample_model sample_world]
  show ?thesis by (auto simp: sample_world_def)
qed

end
