(* ===== verification/Daemon.thy ===== *)
theory Daemon
  imports Registry
begin

text \<open>
  The command, \<open>src/cmd/llm-server/main.go\<close>, and the HTTP server around the Supervisor,
  \<open>src/internal/httpserve/server.go\<close>: parsing of flags as package \<open>flag\<close> does it, the
  subcommand \<open>inspect\<close>, and the life of the daemon from its flags to its exit. Parsing of
  durations and integers, the sockets and the signals are arguments.
\<close>

section \<open>Flags\<close>

datatype flag_err =
    ErrHelp
  | BadSyntax string
  | NotDefined string
  | NeedsArgument string
  | InvalidValue string string

text \<open>
  A flag set: whether a name is a flag, and a boolean one, and how a value is stored. The result
  are the stored values and the arguments that are left.
\<close>

datatype flag_kind = BoolFlag | ValueFlag

definition split_value :: "string \<Rightarrow> string \<times> string option" where
  "split_value name =
     (case dropWhile (\<lambda>c. c \<noteq> CHR ''='') (tl name) of
        [] \<Rightarrow> (name, None)
      | _ # v \<Rightarrow> (take 1 name @ takeWhile (\<lambda>c. c \<noteq> CHR ''='') (tl name), Some v))"

fun parse_flags ::
  "(string \<Rightarrow> flag_kind option) \<Rightarrow> (string \<Rightarrow> string \<Rightarrow> 'o \<Rightarrow> 'o option) \<Rightarrow> 'o \<Rightarrow> string list \<Rightarrow>
     (flag_err, 'o \<times> string list) res"
where
  "parse_flags kind store opts [] = Inr (opts, [])"
| "parse_flags kind store opts (s # args) =
     (if length s < 2 \<or> hd s \<noteq> CHR ''-'' then Inr (opts, s # args)
      else if s = ''--'' then Inr (opts, args)
      else
        (let name = (if s ! 1 = CHR ''-'' then drop 2 s else drop 1 s)
         in if name = [] \<or> hd name = CHR ''-'' \<or> hd name = CHR ''='' then Inl (BadSyntax s)
            else
              (let (name, v) = split_value name
               in case kind name of
                    None \<Rightarrow> if name = ''help'' \<or> name = ''h'' then Inl ErrHelp else Inl (NotDefined name)
                  | Some BoolFlag \<Rightarrow>
                      (let value = (case v of Some x \<Rightarrow> x | None \<Rightarrow> ''true'')
                       in case store name value opts of
                            Some opts \<Rightarrow> parse_flags kind store opts args
                          | None \<Rightarrow> Inl (InvalidValue name value))
                  | Some ValueFlag \<Rightarrow>
                      (case v of
                         Some value \<Rightarrow>
                           (case store name value opts of
                              Some opts \<Rightarrow> parse_flags kind store opts args
                            | None \<Rightarrow> Inl (InvalidValue name value))
                       | None \<Rightarrow>
                           (case args of
                              [] \<Rightarrow> Inl (NeedsArgument name)
                            | value # args \<Rightarrow>
                                (case store name value opts of
                                   Some opts \<Rightarrow> parse_flags kind store opts args
                                 | None \<Rightarrow> Inl (InvalidValue name value)))))))"

section \<open>The command\<close>

definition defaultAddr :: string where
  "defaultAddr = ''127.0.0.1:11434''"

record serverOptions =
  o_Addr :: string
  o_CachePath :: string
  o_ConfigPath :: string
  o_Budget :: duration
  o_IdleTTL :: duration
  o_RescanInterval :: duration
  o_MaxInstances :: int
  o_Slots :: int
  o_Dirs :: "string list"

definition default_options :: serverOptions where
  "default_options =
     \<lparr>o_Addr = defaultAddr, o_CachePath = ''tuning.json'', o_ConfigPath = [], o_Budget = 120000000000,
      o_IdleTTL = 300000000000, o_RescanInterval = 30000000000, o_MaxInstances = 0, o_Slots = 1, o_Dirs = []\<rparr>"

definition server_flag :: "string \<Rightarrow> flag_kind option" where
  "server_flag name =
     (if name \<in> {''addr'', ''tuning-cache'', ''config'', ''tuning-budget'', ''idle-ttl'', ''rescan-interval'',
                 ''max-instances'', ''slots''}
      then Some ValueFlag else None)"

text \<open>\<open>ParseInt\<close> is \<open>strconv.ParseInt\<close> for base 0 and the width of \<open>int\<close>.\<close>

definition store_server_flag ::
  "(string \<Rightarrow> duration option) \<Rightarrow> (string \<Rightarrow> int option) \<Rightarrow> string \<Rightarrow> string \<Rightarrow> serverOptions \<Rightarrow> serverOptions option"
where
  "store_server_flag ParseDuration ParseInt name v s =
     (if name = ''addr'' then Some (s\<lparr>o_Addr := v\<rparr>)
      else if name = ''tuning-cache'' then Some (s\<lparr>o_CachePath := v\<rparr>)
      else if name = ''config'' then Some (s\<lparr>o_ConfigPath := v\<rparr>)
      else if name = ''tuning-budget'' then map_option (\<lambda>d. s\<lparr>o_Budget := d\<rparr>) (ParseDuration v)
      else if name = ''idle-ttl'' then map_option (\<lambda>d. s\<lparr>o_IdleTTL := d\<rparr>) (ParseDuration v)
      else if name = ''rescan-interval'' then map_option (\<lambda>d. s\<lparr>o_RescanInterval := d\<rparr>) (ParseDuration v)
      else if name = ''max-instances'' then map_option (\<lambda>n. s\<lparr>o_MaxInstances := n\<rparr>) (ParseInt v)
      else if name = ''slots'' then map_option (\<lambda>n. s\<lparr>o_Slots := n\<rparr>) (ParseInt v)
      else None)"

definition server_options ::
  "(string \<Rightarrow> duration option) \<Rightarrow> (string \<Rightarrow> int option) \<Rightarrow> string list \<Rightarrow> (flag_err, serverOptions) res"
where
  "server_options ParseDuration ParseInt args =
     res_bind (parse_flags server_flag (store_server_flag ParseDuration ParseInt) default_options args)
       (\<lambda>(s, rest). Inr (s\<lparr>o_Dirs := rest\<rparr>))"

section \<open>inspect\<close>

datatype inspect_cmd_err =
    FlagErr flag_err
  | Usage
  | OpeningFails go_error
  | ReadingFails gguf_err

datatype inspect_out = NoOutput | PlainText string | MetadataJSON json

definition inspect_flag :: "string \<Rightarrow> flag_kind option" where
  "inspect_flag name = (if name = ''json'' then Some BoolFlag else None)"

definition store_inspect_flag :: "string \<Rightarrow> string \<Rightarrow> bool \<Rightarrow> bool option" where
  "store_inspect_flag name v b =
     (if v \<in> {''1'', ''t'', ''T'', ''true'', ''TRUE'', ''True''} then Some True
      else if v \<in> {''0'', ''f'', ''F'', ''false'', ''FALSE'', ''False''} then Some False
      else None)"

definition metadata_json :: "Metadata \<Rightarrow> json" where
  "metadata_json m =
     JObj [(''architecture'', JStr (Architecture m)), (''context_length'', JInt (uint (ContextLength m))),
           (''block_count'', JInt (uint (BlockCount m))), (''quantization'', JStr (Quantization m))]"

definition metadata_text :: "Metadata \<Rightarrow> string" where
  "metadata_text m =
     ''Architecture:   '' @ Architecture m @ [CHR 0x0A] @
     ''Context Length: '' @ FormatUint (ContextLength m) @ [CHR 0x0A] @
     ''Quantization:   '' @ Quantization m @ [CHR 0x0A]"

text \<open>\<open>open\<close> is what opening a path yields.\<close>

definition runInspect ::
  "u64 \<Rightarrow> (string \<Rightarrow> (go_error, reader) res) \<Rightarrow> string list \<Rightarrow> (inspect_cmd_err, inspect_out) res"
where
  "runInspect ovf open args =
     (case parse_flags inspect_flag store_inspect_flag False args of
        Inl ErrHelp \<Rightarrow> Inr NoOutput
      | Inl err \<Rightarrow> Inl (FlagErr err)
      | Inr (asJSON, rest) \<Rightarrow>
          (case rest of
             [] \<Rightarrow> Inl Usage
           | filePath # _ \<Rightarrow>
               (case open filePath of
                  Inl err \<Rightarrow> Inl (OpeningFails err)
                | Inr f \<Rightarrow>
                    (case ReadHeader ovf f of
                       Inl err \<Rightarrow> Inl (ReadingFails err)
                     | Inr (hdr, _) \<Rightarrow>
                         Inr (if asJSON then MetadataJSON (metadata_json (Meta hdr))
                              else PlainText (metadata_text (Meta hdr)))))))"

section \<open>The server\<close>

text \<open>In nanoseconds.\<close>

definition shutdownGrace :: duration where "shutdownGrace = 10000000000"
definition readHeaderTimeout :: duration where "readHeaderTimeout = 10000000000"
definition idleTimeout :: duration where "idleTimeout = 120000000000"

definition ErrServerClosed :: go_error where
  "ErrServerClosed = ErrNew ''http: Server closed''"

text \<open>\<open>bind\<close> is the address that \<open>net.Listen\<close> gives for one, or its error.\<close>

definition Listen :: "(string \<Rightarrow> (go_error, string) res) \<Rightarrow> string \<Rightarrow> (go_error, string) res" where
  "Listen bind addr = map_err (ErrWrap (''binding '' @ addr)) (bind addr)"

text \<open>
  \<open>Serve\<close> at an address, by the error with which \<open>http.Server.Serve\<close> returns and what the shutdown
  that a cancelled context starts returns.
\<close>

definition Serve :: "string \<Rightarrow> go_error \<Rightarrow> go_error option \<Rightarrow> go_error option" where
  "Serve addr served shutdown =
     (if served \<noteq> ErrServerClosed then Some (ErrWrap (''serving on '' @ addr) served)
      else map_option (ErrWrap (''shutting down '' @ addr)) shutdown)"

section \<open>The daemon\<close>

definition resolveScanDirs :: "string list \<Rightarrow> string list \<Rightarrow> string list" where
  "resolveScanDirs conventional explicitDirs = (if length explicitDirs > 0 then explicitDirs else conventional)"

definition supervisor_options :: "serverOptions \<Rightarrow> Option list" where
  "supervisor_options s =
     [WithCachePath (o_CachePath s), WithConfigFile (o_ConfigPath s), WithTuningBudget (o_Budget s),
      WithDefaultTTL (o_IdleTTL s), WithRescanInterval (o_RescanInterval s), WithMaxInstances (o_MaxInstances s),
      WithSlotsPerInstance (o_Slots s)]"

datatype run_err = InitFails config_err | ListenFails go_error | ServeFails go_error

text \<open>
  \<open>runServer\<close>: its error, and the Supervisor it ran, on which \<open>Close\<close> is called when it returns; \<open>new\<close>
  is \<open>NewWithOpts\<close> on the machine and file system of the moment.
\<close>

definition runServer ::
  "(string list \<Rightarrow> Option list \<Rightarrow> (config_err, Supervisor \<times> files) res) \<Rightarrow> string list \<Rightarrow>
     (string \<Rightarrow> (go_error, string) res) \<Rightarrow> go_error \<Rightarrow> go_error option \<Rightarrow> serverOptions \<Rightarrow>
     run_err option \<times> Supervisor option"
where
  "runServer new conventional bind served shutdown opts =
     (case new (resolveScanDirs conventional (o_Dirs opts)) (supervisor_options opts) of
        Inl err \<Rightarrow> (Some (InitFails err), None)
      | Inr (sv, _) \<Rightarrow>
          (case Listen bind (o_Addr opts) of
             Inl err \<Rightarrow> (Some (ListenFails (ErrWrap ''initialising server'' err)), Some sv)
           | Inr addr \<Rightarrow>
               (map_option (ServeFails \<circ> ErrWrap ''serving'') (Serve addr served shutdown), Some sv)))"

datatype cli_err = CliFlag flag_err | CliInspect inspect_cmd_err | CliServer run_err

text \<open>\<open>runCLI\<close>: its output or error, and the Supervisor that ran, if one did.\<close>

definition runCLI ::
  "(string list \<Rightarrow> (inspect_cmd_err, inspect_out) res) \<Rightarrow> (serverOptions \<Rightarrow> run_err option \<times> Supervisor option) \<Rightarrow>
     (string \<Rightarrow> duration option) \<Rightarrow> (string \<Rightarrow> int option) \<Rightarrow> string list \<Rightarrow>
     (cli_err, inspect_out) res \<times> Supervisor option"
where
  "runCLI inspect server ParseDuration ParseInt args =
     (if length args > 1 \<and> args ! 1 = ''inspect'' then (map_err CliInspect (inspect (drop 2 args)), None)
      else
        (case server_options ParseDuration ParseInt (drop 1 args) of
           Inl ErrHelp \<Rightarrow> (Inr NoOutput, None)
         | Inl err \<Rightarrow> (Inl (CliFlag err), None)
         | Inr opts \<Rightarrow>
             (case server opts of
                (Some err, sv) \<Rightarrow> (Inl (CliServer err), sv)
              | (None, sv) \<Rightarrow> (Inr NoOutput, sv))))"

section \<open>Lemmas\<close>

lemma split_value_none: "CHR ''='' \<notin> set name \<Longrightarrow> split_value name = (name, None)"
proof -
  assume n: "CHR ''='' \<notin> set name"
  then have "dropWhile (\<lambda>c. c \<noteq> CHR ''='') (tl name) = []" by (cases name) auto
  then show ?thesis unfolding split_value_def by (simp only: list.case)
qed

lemma split_value_some:
  assumes "CHR ''='' \<notin> set name" "name \<noteq> []"
  shows "split_value (name @ CHR ''='' # v) = (name, Some v)"
proof -
  obtain c cs where name: "name = c # cs" using assms(2) by (cases name) auto
  have "dropWhile (\<lambda>c. c \<noteq> CHR ''='') (cs @ CHR ''='' # v) = CHR ''='' # v"
    "takeWhile (\<lambda>c. c \<noteq> CHR ''='') (cs @ CHR ''='' # v) = cs"
  proof -
    have "CHR ''='' \<notin> set cs" using assms(1) name by simp
    then show "dropWhile (\<lambda>c. c \<noteq> CHR ''='') (cs @ CHR ''='' # v) = CHR ''='' # v"
      "takeWhile (\<lambda>c. c \<noteq> CHR ''='') (cs @ CHR ''='' # v) = cs"
      by (induction cs) auto
  qed
  then show ?thesis by (simp add: split_value_def name)
qed

section \<open>Properties\<close>

text \<open>
  The two ways to write a flag agree: \<open>-name value\<close>, \<open>--name value\<close>, \<open>-name=value\<close> and
  \<open>--name=value\<close> set the same option to the same value and leave the same arguments, whatever the
  value looks like.
\<close>

theorem flag_forms_agree:
  assumes "kind name = Some ValueFlag" "name \<noteq> []" "CHR ''='' \<notin> set name" "hd name \<noteq> CHR ''-''"
  shows "parse_flags kind store opts ((''-'' @ name) # v # args) =
      parse_flags kind store opts ((''-'' @ name @ ''='' @ v) # args) \<and>
    parse_flags kind store opts ((''--'' @ name) # v # args) =
      parse_flags kind store opts ((''-'' @ name @ ''='' @ v) # args) \<and>
    parse_flags kind store opts ((''--'' @ name @ ''='' @ v) # args) =
      parse_flags kind store opts ((''-'' @ name @ ''='' @ v) # args)"
proof -
  obtain c cs where name: "name = c # cs" "c \<noteq> CHR ''-''" "c \<noteq> CHR ''=''"
    using assms(2-4) by (cases name) auto
  have s: "split_value (c # cs) = (c # cs, None)" "split_value (c # cs @ CHR ''='' # v) = (c # cs, Some v)"
    using split_value_none [OF assms(3)] split_value_some [OF assms(3,2), of v] by (simp_all add: name(1))
  have k: "kind (c # cs) = Some ValueFlag" using assms(1) name(1) by simp
  show ?thesis using name s k by (simp add: Let_def)
qed

theorem flag_forms_agree_witness:
  "server_options (\<lambda>_. None) (\<lambda>_. Some 4) [''--slots'', ''4'', ''/m''] =
     server_options (\<lambda>_. None) (\<lambda>_. Some 4) [''-slots=4'', ''/m'']"
proof -
  have "server_flag ''slots'' = Some ValueFlag" "''slots'' \<noteq> []" "CHR ''='' \<notin> set ''slots''" "hd ''slots'' \<noteq> CHR ''-''"
    by (simp_all add: server_flag_def)
  from flag_forms_agree [of server_flag "''slots''", OF this, of "store_server_flag (\<lambda>_. None) (\<lambda>_. Some 4)" default_options "''4''" "[''/m'']"]
  show ?thesis unfolding server_options_def append.simps by (elim conjE) (simp only:)
qed

lemma supervisor_settings:
  assumes "NewWithOpts e scan pd read_config files dirs (supervisor_options opt) = Inr (s, files')"
  shows "s_cachePath s = o_CachePath opt \<and> s_configPath s = o_ConfigPath opt \<and> s_tuningBudget s = o_Budget opt \<and>
    s_defaultTTL s = o_IdleTTL opt \<and> s_rescanInterval s = o_RescanInterval opt \<and> s_maxInstances s = o_MaxInstances opt \<and>
    s_slotsPerInstance s = max 1 (o_Slots opt) \<and> s_dirs s = dirs"
  using assms
  by (auto simp: NewWithOpts_def supervisor_options_def initial_supervisor_def Let_def res_bind_Inr_iff
      split: prod.splits if_splits)

lemma NewWithOpts_fails:
  assumes "NewWithOpts e scan pd read_config files dirs (supervisor_options opt) = Inl err"
  shows "o_ConfigPath opt \<noteq> [] \<and> loadConfig pd (read_config (o_ConfigPath opt)) = Inl err"
  using assms
  by (auto simp: NewWithOpts_def supervisor_options_def initial_supervisor_def Let_def res_bind_def
      split: prod.splits if_splits sum.splits)

text \<open>
  A setting on a command line in one of its four forms, and the value a flag ends up with: that of
  its last setting, or the default.
\<close>

datatype flag_form = Dash | DashDash | DashEq | DashDashEq

fun flag_words :: "flag_form \<times> string \<times> string \<Rightarrow> string list" where
  "flag_words (Dash, n, v) = [''-'' @ n, v]"
| "flag_words (DashDash, n, v) = [''--'' @ n, v]"
| "flag_words (DashEq, n, v) = [''-'' @ n @ ''='' @ v]"
| "flag_words (DashDashEq, n, v) = [''--'' @ n @ ''='' @ v]"

definition flag_value :: "'v \<Rightarrow> (string \<Rightarrow> 'v option) \<Rightarrow> string \<Rightarrow> (flag_form \<times> string \<times> string) list \<Rightarrow> 'v" where
  "flag_value d parse name sets =
     (case map_of (rev (map snd sets)) name of Some v \<Rightarrow> the (parse v) | None \<Rightarrow> d)"

text \<open>A setting that can be made: the name is a flag and its value parses as the flag's type.\<close>

definition good_setting :: "(string \<Rightarrow> duration option) \<Rightarrow> (string \<Rightarrow> int option) \<Rightarrow> string \<Rightarrow> string \<Rightarrow> bool" where
  "good_setting PD PI n v \<longleftrightarrow>
     n \<in> {''addr'', ''tuning-cache'', ''config''} \<or>
     n \<in> {''tuning-budget'', ''idle-ttl'', ''rescan-interval''} \<and> PD v \<noteq> None \<or>
     n \<in> {''max-instances'', ''slots''} \<and> PI v \<noteq> None"

lemma good_setting_name:
  assumes "good_setting PD PI n v"
  shows "server_flag n = Some ValueFlag" "n \<noteq> []" "CHR ''='' \<notin> set n" "hd n \<noteq> CHR ''-''"
  using assms by (auto simp: good_setting_def server_flag_def)

lemma parse_flag_words:
  assumes "good_setting PD PI n v"
  shows "parse_flags server_flag store opts (flag_words (f, n, v) @ args) =
    (case store n v opts of Some opts \<Rightarrow> parse_flags server_flag store opts args | None \<Rightarrow> Inl (InvalidValue n v))"
proof -
  note n = good_setting_name [OF assms]
  obtain c cs where name: "n = c # cs" "c \<noteq> CHR ''-''" "c \<noteq> CHR ''=''" using n(2-4) by (cases n) auto
  have s: "split_value (c # cs @ CHR ''='' # v) = (c # cs, Some v)"
    using split_value_some [OF n(3,2), of v] by (simp add: name(1))
  have k: "server_flag (c # cs) = Some ValueFlag" using n(1) name(1) by simp
  have "parse_flags server_flag store opts ((''-'' @ n @ ''='' @ v) # args) =
    (case store n v opts of Some opts \<Rightarrow> parse_flags server_flag store opts args | None \<Rightarrow> Inl (InvalidValue n v))"
    using name(2,3) s k unfolding name(1) by (simp add: Let_def)
  then show ?thesis using flag_forms_agree [where kind = server_flag, OF n, of store opts v args] by (cases f) simp_all
qed

lemma parse_settings:
  assumes "\<forall>(f, n, v) \<in> set sets. good_setting PD PI n v"
    and "case rest of [] \<Rightarrow> True | d # _ \<Rightarrow> length d < 2 \<or> hd d \<noteq> CHR ''-''"
    and "foldl (\<lambda>o' (f, n, v). Option.bind o' (store n v)) (Some opts) sets = Some opts'"
  shows "parse_flags server_flag store opts (concat (map flag_words sets) @ rest) = Inr (opts', rest)"
  using assms(1,3)
proof (induction sets arbitrary: opts)
  case Nil
  then show ?case using assms(2) by (cases rest) auto
next
  case (Cons s sets)
  obtain f n v where s: "s = (f, n, v)" by (cases s) auto
  have "foldl (\<lambda>o' (f, n, v). Option.bind o' (store n v)) None sets = None" by (induction sets) auto
  with Cons.prems(2) obtain opts1 where o: "store n v opts = Some opts1"
    "foldl (\<lambda>o' (f, n, v). Option.bind o' (store n v)) (Some opts1) sets = Some opts'"
    unfolding s by (cases "store n v opts") auto
  have "good_setting PD PI n v" using Cons.prems(1) unfolding s by auto
  note w = parse_flag_words [OF this, of store opts f "concat (map flag_words sets) @ rest"]
  have "parse_flags server_flag store opts1 (concat (map flag_words sets) @ rest) = Inr (opts', rest)"
    by (rule Cons.IH [OF _ o(2)]) (use Cons.prems(1) in auto)
  with w o(1) show ?case unfolding s by simp
qed

lemma one_of_eight:
  assumes "n \<in> {a, b, c} \<or> n \<in> {d, e, f} \<and> p \<noteq> None \<or> n \<in> {g, h} \<and> q \<noteq> None"
  shows "n = a \<or> n = b \<or> n = c \<or> n = d \<and> (\<exists>x. p = Some x) \<or> n = e \<and> (\<exists>x. p = Some x) \<or>
    n = f \<and> (\<exists>x. p = Some x) \<or> n = g \<and> (\<exists>x. q = Some x) \<or> n = h \<and> (\<exists>x. q = Some x)"
  using assms by auto

text \<open>Where the settings end up.\<close>

lemma stored_settings:
  assumes "\<forall>(f, n, v) \<in> set sets. good_setting PD PI n v"
  shows "foldl (\<lambda>o' (f, n, v). Option.bind o' (store_server_flag PD PI n v)) (Some default_options) sets =
    Some \<lparr>o_Addr = flag_value defaultAddr Some ''addr'' sets,
      o_CachePath = flag_value ''tuning.json'' Some ''tuning-cache'' sets,
      o_ConfigPath = flag_value [] Some ''config'' sets,
      o_Budget = flag_value 120000000000 PD ''tuning-budget'' sets,
      o_IdleTTL = flag_value 300000000000 PD ''idle-ttl'' sets,
      o_RescanInterval = flag_value 30000000000 PD ''rescan-interval'' sets,
      o_MaxInstances = flag_value 0 PI ''max-instances'' sets, o_Slots = flag_value 1 PI ''slots'' sets, o_Dirs = []\<rparr>"
  using assms
proof (induction sets rule: rev_induct)
  case Nil
  then show ?case by (simp add: default_options_def flag_value_def)
next
  case (snoc s sets)
  obtain f n v where s: "s = (f, n, v)" by (cases s) auto
  have "good_setting PD PI n v" using snoc.prems unfolding s by auto
  then have "n = ''addr'' \<or> n = ''tuning-cache'' \<or> n = ''config'' \<or>
      n = ''tuning-budget'' \<and> (\<exists>d. PD v = Some d) \<or> n = ''idle-ttl'' \<and> (\<exists>d. PD v = Some d) \<or>
      n = ''rescan-interval'' \<and> (\<exists>d. PD v = Some d) \<or> n = ''max-instances'' \<and> (\<exists>i. PI v = Some i) \<or>
      n = ''slots'' \<and> (\<exists>i. PI v = Some i)"
    unfolding good_setting_def by (rule one_of_eight)
  note n = this
  have "\<forall>(f, n, v) \<in> set sets. good_setting PD PI n v" using snoc.prems by simp
  note ih = snoc.IH [OF this]
  have v: "flag_value d parse k (sets @ [(f, n, v)]) = (if k = n then the (parse v) else flag_value d parse k sets)"
    for d :: 'w and parse k
    by (simp add: flag_value_def)
  have "store_server_flag PD PI n v \<lparr>o_Addr = a, o_CachePath = c, o_ConfigPath = g, o_Budget = b, o_IdleTTL = i,
        o_RescanInterval = r, o_MaxInstances = x, o_Slots = k, o_Dirs = []\<rparr> =
      Some \<lparr>o_Addr = if ''addr'' = n then v else a, o_CachePath = if ''tuning-cache'' = n then v else c,
        o_ConfigPath = if ''config'' = n then v else g, o_Budget = if ''tuning-budget'' = n then the (PD v) else b,
        o_IdleTTL = if ''idle-ttl'' = n then the (PD v) else i,
        o_RescanInterval = if ''rescan-interval'' = n then the (PD v) else r,
        o_MaxInstances = if ''max-instances'' = n then the (PI v) else x,
        o_Slots = if ''slots'' = n then the (PI v) else k, o_Dirs = []\<rparr>" for a c g b i r x k
    using n by (elim disjE conjE exE) (simp_all add: store_server_flag_def)
  note st = this
  show ?case unfolding s foldl_append ih by (simp only: foldl.simps prod.case Option.bind.bind_lunit st v option.sel)
qed

text \<open>
  C34. What the command line says is what the Supervisor does. Flags may be written in any of their
  forms and any order, the last setting of one counts and the others have their defaults: the
  daemon binds the address of its flag and runs a Supervisor with the cache path, configuration,
  budget, TTL, rescan interval and cap of the flags, and with their Slot count, at least 1. Its
  directories are the arguments after the flags or, without any, the conventional ones. No
  Supervisor runs only when the configuration file that a flag names is rejected.
\<close>

theorem flags_reach_supervisor:
  assumes "\<forall>(f, n, v) \<in> set sets. good_setting PD PI n v"
    and "case rest of [] \<Rightarrow> True | d # _ \<Rightarrow> (length d < 2 \<or> hd d \<noteq> CHR ''-'') \<and> (sets = [] \<longrightarrow> d \<noteq> ''inspect'')"
  shows "case runCLI inspect (runServer (NewWithOpts e scan pd read_config files) conventional bind served shutdown) PD PI
      (prog # concat (map flag_words sets) @ rest) of
      (res, None) \<Rightarrow>
        flag_value [] Some ''config'' sets \<noteq> [] \<and>
        (\<exists>err. loadConfig pd (read_config (flag_value [] Some ''config'' sets)) = Inl err \<and> res = Inl (CliServer (InitFails err)))
    | (res, Some s) \<Rightarrow>
        s_cachePath s = flag_value ''tuning.json'' Some ''tuning-cache'' sets \<and>
        s_configPath s = flag_value [] Some ''config'' sets \<and>
        s_tuningBudget s = flag_value 120000000000 PD ''tuning-budget'' sets \<and>
        s_defaultTTL s = flag_value 300000000000 PD ''idle-ttl'' sets \<and>
        s_rescanInterval s = flag_value 30000000000 PD ''rescan-interval'' sets \<and>
        s_maxInstances s = flag_value 0 PI ''max-instances'' sets \<and>
        s_slotsPerInstance s = max 1 (flag_value 1 PI ''slots'' sets) \<and>
        s_dirs s = (if rest = [] then conventional else rest) \<and>
        (let addr = flag_value ''127.0.0.1:11434'' Some ''addr'' sets
         in case bind addr of
              Inl err \<Rightarrow> res = Inl (CliServer (ListenFails (ErrWrap ''initialising server'' (ErrWrap (''binding '' @ addr) err))))
            | Inr bound \<Rightarrow> (res = Inr NoOutput \<longleftrightarrow> Serve bound served shutdown = None))"
proof -
  let ?o = "\<lparr>o_Addr = flag_value defaultAddr Some ''addr'' sets,
      o_CachePath = flag_value ''tuning.json'' Some ''tuning-cache'' sets,
      o_ConfigPath = flag_value [] Some ''config'' sets,
      o_Budget = flag_value 120000000000 PD ''tuning-budget'' sets,
      o_IdleTTL = flag_value 300000000000 PD ''idle-ttl'' sets,
      o_RescanInterval = flag_value 30000000000 PD ''rescan-interval'' sets,
      o_MaxInstances = flag_value 0 PI ''max-instances'' sets, o_Slots = flag_value 1 PI ''slots'' sets, o_Dirs = rest\<rparr>"
  let ?args = "concat (map flag_words sets) @ rest"
  have opts: "server_options PD PI ?args = Inr ?o"
    unfolding server_options_def
    using parse_settings [OF assms(1) _ stored_settings [OF assms(1)], where rest = rest] assms(2) by (auto split: list.splits)
  have first: "?args = x # xs \<Longrightarrow> x \<noteq> ''inspect''" for x xs
  proof (cases sets)
    case (Cons t ts)
    obtain ys y where "flag_words t = y # ys" "hd y = CHR ''-''" by (cases t rule: flag_words.cases) auto
    then show "?args = x # xs \<Longrightarrow> x \<noteq> ''inspect''" using Cons by auto
  qed (use assms(2) in \<open>auto split: list.splits\<close>)
  have cli: "runCLI inspect server PD PI (prog # ?args) =
      (case server ?o of (Some err, sv) \<Rightarrow> (Inl (CliServer err), sv) | (None, sv) \<Rightarrow> (Inr NoOutput, sv))" for server
  proof -
    have "\<not> (length (prog # ?args) > 1 \<and> (prog # ?args) ! 1 = ''inspect'')" using first by (cases ?args) auto
    with opts show ?thesis unfolding runCLI_def by (simp only: if_False drop_Suc_Cons drop_0 One_nat_def sum.case)
  qed
  show ?thesis
  proof (cases "NewWithOpts e scan pd read_config files (resolveScanDirs conventional rest) (supervisor_options ?o)")
    case (Inl err)
    then have "o_ConfigPath ?o \<noteq> [] \<and> loadConfig pd (read_config (o_ConfigPath ?o)) = Inl err"
      using NewWithOpts_fails by blast
    with Inl show ?thesis unfolding cli by (simp add: runServer_def)
  next
    case (Inr sf)
    obtain s f where sf: "sf = (s, f)" by (cases sf)
    note s = supervisor_settings [OF Inr [unfolded sf]]
    show ?thesis
      unfolding cli using s Inr [unfolded sf]
      by (auto simp: runServer_def Listen_def defaultAddr_def resolveScanDirs_def Let_def split: sum.splits option.splits)
  qed
qed

text \<open>The flags of a daemon with two of them set, in two forms and one of them twice.\<close>

definition sample_settings :: "(flag_form \<times> string \<times> string) list" where
  "sample_settings = [(Dash, ''slots'', ''8''), (DashDashEq, ''idle-ttl'', ''1h''), (DashEq, ''slots'', ''0'')]"

lemma sample_flag_values:
  "flag_value ''tuning.json'' Some ''tuning-cache'' sample_settings = ''tuning.json''"
  "flag_value [] Some ''config'' sample_settings = []"
  "flag_value 300000000000 (\<lambda>_. Some 3600000000000) ''idle-ttl'' sample_settings = (3600000000000 :: duration)"
  "flag_value 1 (\<lambda>v. Some (if v = ''8'' then 8 else 0)) ''slots'' sample_settings = (0 :: int)"
  by (simp_all add: flag_value_def sample_settings_def)

theorem flags_reach_supervisor_witness:
  "concat (map flag_words sample_settings) @ [''/models''] =
     [''-slots'', ''8'', ''--idle-ttl=1h'', ''-slots=0'', ''/models''] \<and>
   (\<exists>res s. runCLI (\<lambda>_. Inr NoOutput)
        (runServer (NewWithOpts sample_machine (discoverModels 0 sample_fs) sample_pd (\<lambda>_. Parsed sample_entries) (\<lambda>_. None))
          [''/conventional''] Inr ErrServerClosed None)
        (\<lambda>_. Some 3600000000000) (\<lambda>v. Some (if v = ''8'' then 8 else 0))
        (''llm-server'' # concat (map flag_words sample_settings) @ [''/models'']) = (res, Some s) \<and>
      s_slotsPerInstance s = 1 \<and> s_defaultTTL s = 3600000000000 \<and> s_cachePath s = ''tuning.json'' \<and> s_dirs s = [''/models''])"
proof -
  let ?PD = "\<lambda>_::string. Some (3600000000000 :: duration)" and ?PI = "\<lambda>v::string. Some (if v = ''8'' then 8 else 0 :: int)"
  let ?cli = "runCLI (\<lambda>_. Inr NoOutput)
        (runServer (NewWithOpts sample_machine (discoverModels 0 sample_fs) sample_pd (\<lambda>_. Parsed sample_entries) (\<lambda>_. None))
          [''/conventional''] Inr ErrServerClosed None)
        ?PD ?PI (''llm-server'' # concat (map flag_words sample_settings) @ [''/models''])"
  have good: "\<forall>(f, n, v) \<in> set sample_settings. good_setting ?PD ?PI n v"
    by (simp add: sample_settings_def good_setting_def)
  have rest: "case [''/models''] of [] \<Rightarrow> True
    | d # _ \<Rightarrow> (length d < 2 \<or> hd d \<noteq> CHR ''-'') \<and> (sample_settings = [] \<longrightarrow> d \<noteq> ''inspect'')" by simp
  have no_config: "flag_value [] Some ''config'' sample_settings = []" by (rule sample_flag_values)
  note flags_reach_supervisor [OF good rest, where inspect = "\<lambda>_. Inr NoOutput" and e = sample_machine
      and scan = "discoverModels 0 sample_fs" and pd = sample_pd and read_config = "\<lambda>_. Parsed sample_entries"
      and files = "\<lambda>_. None" and conventional = "[''/conventional'']" and bind = Inr and served = ErrServerClosed
      and shutdown = None and prog = "''llm-server''"]
  then obtain res s where "?cli = (res, Some s)" "s_slotsPerInstance s = max 1 0" "s_defaultTTL s = 3600000000000"
    "s_cachePath s = ''tuning.json''" "s_dirs s = [''/models'']"
    unfolding sample_flag_values by (cases ?cli) (auto split: option.splits)
  then show ?thesis by (auto simp: sample_settings_def)
qed

text \<open>
  \<open>inspect\<close> prints what a file says: on a file that \<open>CreateTestGGUF\<close> wrote it prints the
  architecture and the context length the file was made with.
\<close>

theorem inspect_prints_fixture:
  assumes "CreateTestGGUF entries params ord = Some bs"
    and "set ord = dom (fixture_kv entries params)" and "length ord \<le> maxKVCount"
    and "\<forall>k v. fixture_kv entries params k = Some v \<longrightarrow> length k \<le> maxStringLength \<and> goval_ok v"
    and "mset entries = mset FileTypeTable" and "fp_ExtraKV params = Map.empty"
    and "open path = Inr \<lparr>pending = bs @ payload, broken = b\<rparr>" and "length path < 2 \<or> hd path \<noteq> CHR ''-''"
  shows "\<exists>m. runInspect ovf open [path] = Inr (PlainText (metadata_text m)) \<and>
    runInspect ovf open [''-json'', path] = Inr (MetadataJSON (metadata_json m)) \<and>
    Architecture m = or_default [] ''llama'' (fp_Architecture params) \<and>
    ContextLength m = or_default 0 4096 (fp_ContextLength params)"
proof -
  obtain h where h: "ReadHeader ovf \<lparr>pending = bs @ payload, broken = b\<rparr> = Inr (h, \<lparr>pending = payload, broken = b\<rparr>)"
    "Architecture (Meta h) = or_default [] ''llama'' (fp_Architecture params)"
    "ContextLength (Meta h) = or_default 0 4096 (fp_ContextLength params)"
    using fixture_metadata_roundtrip [OF assms(1-6), of ovf payload b] by blast
  have p: "parse_flags inspect_flag store_inspect_flag False [path] = Inr (False, [path])"
    "parse_flags inspect_flag store_inspect_flag False [''-json'', path] = Inr (True, [path])"
    using assms(8) by (auto simp: split_value_def inspect_flag_def store_inspect_flag_def)
  show ?thesis
    using h p assms(7) by (intro exI [of _ "Meta h"]) (simp add: runInspect_def)
qed

theorem inspect_prints_fixture_witness:
  "\<exists>bs m. CreateTestGGUF FileTypeTable default_params default_order = Some bs \<and>
     runInspect 0 (\<lambda>_. Inr \<lparr>pending = bs @ [], broken = False\<rparr>) [''a.gguf''] = Inr (PlainText (metadata_text m)) \<and>
     ContextLength m = 4096"
proof -
  obtain bs where bs: "CreateTestGGUF FileTypeTable default_params default_order = Some bs"
    using default_written by blast
  have n: "length default_order \<le> maxKVCount" by (simp add: default_order_def maxKVCount_def)
  have e: "fp_ExtraKV default_params = Map.empty" by (simp add: default_params_def)
  have c: "or_default 0 4096 (fp_ContextLength default_params) = 4096"
    by (simp add: or_default_def default_params_def)
  have p: "length ''a.gguf'' < 2 \<or> hd ''a.gguf'' \<noteq> CHR ''-''" by simp
  let ?open = "\<lambda>_. Inr \<lparr>pending = bs @ [], broken = False\<rparr> :: (go_error, reader) res"
  have o: "?open ''a.gguf'' = Inr \<lparr>pending = bs @ [], broken = False\<rparr>" by (rule refl)
  obtain m where "runInspect 0 ?open [''a.gguf''] = Inr (PlainText (metadata_text m))"
    "ContextLength m = or_default 0 4096 (fp_ContextLength default_params)"
    using inspect_prints_fixture [OF bs default_order_dom n default_kv_ok refl e o p, of 0] by blast
  with bs c show ?thesis by auto
qed

end
