(* ===== verification/Spec2Isabelle.thy ===== *)
theory Spec2Isabelle
  imports Lifecycle Ollama_Shim Real_Host Fake_Host Daemon
begin

text \<open>
  \<^bold>\<open>llm-server\<close>: a daemon that serves the GGUF model files it finds on disk over the HTTP interfaces
  of Ollama and OpenAI, running one \<open>llama-server\<close> child process (an Instance) for each Model in use
  and measuring (Tuning) how much of a Model fits the hardware. This theory is the root of a
  development about its Go sources under \<open>src/\<close>: a model of the code, one theory for each part, and
  the theorems that make the parts correct, alone and together.

  \<^bold>\<open>How the program works.\<close> At start \<open>discoverModels\<close> walks the directories and reads the header of
  each GGUF file; the Models found form the registry of the \<open>Supervisor\<close>. A request names a Model;
  \<open>resolveModel\<close> finds it, \<open>getOrLaunchInstance\<close> hands out an Instance with a Slot in it, joining a
  load in progress or leading one. A load goes through \<open>launchInstance\<close>: a Pin of the configuration
  file, a valid entry of the Tuning cache, or \<open>tune\<close>, which probes context lengths and offloads until
  the best one that starts is found. Requests are relayed to the process; an Instance that is
  idle for its TTL, evicted for a cap or by request, or left over at \<open>Close\<close> is drained and stopped.
  Everything below the interface \<open>Host\<close> is the machine: processes, hardware, ports.

  \<^bold>\<open>Theories and sources.\<close>
  \<^item> \<open>Go_Prelude\<close>: integers of fixed width, the functions of the Go packages \<open>strings\<close>, \<open>strconv\<close> and
    \<open>path/filepath\<close> the sources use, results with errors, and the locale \<open>step_invariant\<close> that all
    step relations are proved with.
  \<^item> \<open>Gguf\<close>: \<open>internal/gguf/gguf.go\<close> and \<open>fixture.go\<close>. The reader is a function on the bytes that
    remain; every read error, limit and conversion is a branch. Shown: it reads back what the writer
    writes, needs no byte beyond the header, rejects every proper prefix, respects its limits. The
    locales \<open>byte_parser\<close> and \<open>codec\<close> carry these laws from strings to values, pairs and headers.
  \<^item> \<open>Sha256\<close>: the hash behind digests and fingerprints, executable.
  \<^item> \<open>Discovery\<close>: \<open>internal/supervisor/discovery.go\<close>. The file system is what a walk visits and what the
    files contain. Shown: the result is sorted, free of duplicates, and what it says of each Model is
    so; every readable file is served; a set of shards is served once. Locale \<open>model_source\<close>.
  \<^item> \<open>Config\<close>: the configuration file, reserved flags, Pins, Slots and TTLs of \<open>supervisor.go\<close>.
  \<^item> \<open>Resident\<close>: \<open>residentInstance\<close> of \<open>supervisor.go\<close>: Slots, idle timer, condition variable, drain. One
    Instance with any number of goroutines is a step relation, \<open>inst_step\<close>; critical sections are
    functions, a wait on the condition variable splits them.
  \<^item> \<open>Host\<close>: \<open>internal/host/host.go\<close>: errors with their chains, the machine as a record of answers, and
    the contract of an Instance as the locale \<open>host_instance\<close>, interpreted in \<open>Real_Host\<close> and \<open>Fake_Host\<close>.
  \<^item> \<open>State\<close>: the structure \<open>Supervisor\<close>, its options, \<open>NewWithOpts\<close>, and the Tuning cache file with its
    encoding and decoding as JSON. Shown: a Supervisor starts well formed, a saved cache is loaded
    back entry by entry, a failed save leaves the old file.
  \<^item> \<open>Tuning\<close>: \<open>launchConfig\<close>, \<open>tune\<close>, \<open>launchInstance\<close>. Shown: Tuning returns on every machine, after at
    most 537 launches; on a machine limited by memory it finds the best configuration; it leaves no
    probe running; what it stores is reused. The world keeps, for each launch, the context the process
    was launched with, so the deferred \<open>cancel()\<close> of \<open>tune\<close> shows: it ends the context of the very
    process that is returned.
  \<^item> \<open>Lifecycle\<close>: \<open>getOrLaunchInstance\<close>, \<open>evictLRULocked\<close>, \<open>evictByID\<close>, \<open>drainAndStop\<close>, \<open>Close\<close> as steps of any
    number of goroutines over any number of Instances, with cancelled requests, processes that die
    and stops that fail. Shown by an invariant: no process is forgotten, loads are single, the cap
    holds, and to each Instance a step of the system is a step of \<open>Resident\<close>'s machine or none. And
    what a caller that joined a load is handed depends on the context of the one that leads it.
  \<^item> \<open>Json\<close>, \<open>Registry\<close>: JSON values and responses; resolution, \<open>Rescan\<close> and its timer, TTL overrides,
    routes, and the handlers of \<open>supervisor.go\<close>. Locale \<open>registry\<close>.
  \<^item> \<open>Ollama_Shim\<close>: every handler of \<open>internal/supervisor/ollama.go\<close>: \<open>keep_alive\<close>, options, the loop over
    the event stream, embeddings, listings. Shown, among others: the events of any answer arrive at
    the client of the chat and generate handlers, text by text.
  \<^item> \<open>Real_Host\<close>: \<open>internal/host/real.go\<close>, \<open>real_linux.go\<close>, \<open>real_other.go\<close>: detection of hardware, the port
    in the command line, the patterns for memory in the error output, and a process with its two
    goroutines as a step relation, in which the ends a process may come to by itself are an
    argument, so that what \<open>Stop\<close> and the context of the launch do to it can be told apart.
  \<^item> \<open>Fake_Host\<close>: \<open>internal/host/fake.go\<close>, the double used by the tests, as a machine for Tuning and as
    the server behind the Ollama endpoints.
  \<^item> \<open>Daemon\<close>: \<open>cmd/llm-server/main.go\<close> and \<open>internal/httpserve/server.go\<close>: flags, \<open>inspect\<close>, start and
    shutdown. Shown: what any command line says is what the Supervisor that runs is set to.
  \<^item> This theory: what holds of a Supervisor after any sequence of operations.

  \<^bold>\<open>How state and operations correspond.\<close> A structure is a record with the fields of the source; a
  map is a partial function, or an association list where the order of iteration matters (that
  order is then an argument or left open). \<open>uint64\<close> is a 64-bit word; \<open>int\<close>, \<open>int64\<close> and durations are
  integers, with the wrap-around written out where it can happen. A fallible operation returns a
  sum, the error on the left. A handler returns its response and the new state. What the code
  asks of the outside is an argument, one answer for each time it is asked.

  \<^bold>\<open>Bounds.\<close> No recursion has fuel. The search loop of \<open>tune\<close> has 64-bit bounds and is a
  \<open>partial_function\<close>; it is shown to return for every block count but \<open>2^63\<close>, whose conversion to \<open>int\<close>
  overflows. A search halves its interval, so its rounds are bounded by the width of the
  integers; with eight rungs of the ladder, the probe before and the launch after each search, and
  the fallback, 537 launches suffice. All other loops recurse on their data.

  \<^bold>\<open>Arguments that stand for something else.\<close> Printing and parsing of JSON text (values are modelled, with
  their tags and the replacement of invalid UTF-8 in strings that are stored), of durations and of decimal
  fractions (\<open>encoding/json\<close>, \<open>time.ParseDuration\<close>, \<open>strconv.ParseFloat\<close>); the clock; what a directory
  walk visits; the answers of processes and of the hardware's files and tools; contexts; sockets.
  A theorem that needs something of them says so in a named hypothesis.

  \<^bold>\<open>Not modelled.\<close> Logging; the texts of responses beyond their JSON values; the two mutexes of \<open>tune\<close>
  (one run of it is one sequence of operations); the copying of bytes by \<open>httputil.ReverseProxy\<close>,
  of which only the outcome is an argument; operating system calls. The tests are not modelled.

  \<^bold>\<open>What could come next.\<close> A parser of JSON text in place of the argument; the flow of cancellation from
  a request through \<open>tune\<close> to the process it launches, as one step relation of \<open>Tuning\<close>,
  \<open>Lifecycle\<close> and \<open>Real_Host\<close>: at present \<open>Tuning\<close> says which contexts end, \<open>Real_Host\<close> what that does to a
  process, and \<open>Lifecycle\<close> that a process may exit at any time.
\<close>

section \<open>A Supervisor in use\<close>

text \<open>What the life of the Instances changes: which are registered, their state, the processes.\<close>

definition lives :: "world \<Rightarrow> world \<Rightarrow> bool" where
  "lives w w' \<longleftrightarrow>
     (\<exists>is h ps. w' = w\<lparr>w_sup := (w_sup w)\<lparr>s_instances := is\<rparr>, w_residents := h, w_running := ps\<rparr>)"

text \<open>
  A step of a Supervisor on a machine with the fingerprint \<open>fp\<close>, between two moments in which its
  lock is free: a launch with its Tuning, a rescan, a TTL override, a Tuning reset, anything the life
  of the Instances does to them (\<open>Lifecycle\<close>), and closing.
\<close>

inductive serve_step :: "string \<Rightarrow> world \<Rightarrow> world \<Rightarrow> bool" for fp where
  launches: "e_fingerprint e = fp \<Longrightarrow> max_offload m \<noteq> 2 ^ 63 \<Longrightarrow> launchInstance e m w = Some (r, w') \<Longrightarrow> serve_step fp w w'"
| rescans: "Rescan (discoverModels ovf fs) (\<lambda>s. s) ids (w_sup w) = (err, orphaned, s') \<Longrightarrow> serve_step fp w (w\<lparr>w_sup := s'\<rparr>)"
| sets_ttl: "serve_step fp w (snd (SetModelTTL stat now modelRef d w))"
| resets: "e_fingerprint e = fp \<Longrightarrow> (\<And>i v. lives v (evicted i v)) \<Longrightarrow>
    serve_step fp w (snd (handleV1TuningReset e stat evicted removed query b w))"
| instances_live: "lives w w' \<Longrightarrow> serve_step fp w w'"
| closes: "serve_step fp w (w\<lparr>w_sup := (w_sup w)\<lparr>s_closed := True\<rparr>\<rparr>)"

text \<open>Where it begins: what \<open>NewWithOpts\<close> returns, with whatever ran before.\<close>

definition serve_init :: "string \<Rightarrow> world \<Rightarrow> bool" where
  "serve_init fp w \<longleftrightarrow>
     (\<exists>e ovf fs pd read_config files dirs opts files'. e_fingerprint e = fp \<and>
        NewWithOpts e (discoverModels ovf fs) pd read_config files dirs opts = Inr (w_sup w, files'))"

definition settings_ok :: "string \<Rightarrow> Supervisor \<Rightarrow> bool" where
  "settings_ok fp s \<longleftrightarrow>
     (\<forall>i entry. s_tuned s i = Some entry \<longrightarrow> te_Fingerprint entry = fp) \<and>
     0 < s_slotsPerInstance s \<and>
     (\<forall>m. 0 < resolveSlots (s_config s) (s_slotsPerInstance s) m \<and> resolvePin (s_config s) m \<noteq> PinNil)"

definition sup_wf :: "string \<Rightarrow> Supervisor \<Rightarrow> bool" where
  "sup_wf fp s \<longleftrightarrow> registry_ok s \<and> settings_ok fp s"

section \<open>Lemmas\<close>

text \<open>What matters to well-formedness: registry, settings and entries.\<close>

lemma sup_wf_cong:
  assumes "sup_wf fp s" "s_models s' = s_models s" "s_modelsList s' = s_modelsList s" "s_config s' = s_config s"
    "s_slotsPerInstance s' = s_slotsPerInstance s"
    "\<And>i entry. s_tuned s' i = Some entry \<Longrightarrow> s_tuned s i = Some entry \<or> te_Fingerprint entry = fp"
  shows "sup_wf fp s'"
  using assms unfolding sup_wf_def settings_ok_def registry_ok_def by metis

lemma drop_entry_wf: "sup_wf fp (w_sup w) \<Longrightarrow> sup_wf fp (w_sup (drop_entry e i w))"
  by (erule sup_wf_cong) (auto simp: drop_entry_def Let_def split: if_splits)

lemma lives_wf: "sup_wf fp (w_sup w) \<Longrightarrow> lives w w' \<Longrightarrow> sup_wf fp (w_sup w')"
  by (erule sup_wf_cong) (auto simp: lives_def)

lemma tune_wf:
  assumes "max_offload m \<noteq> 2 ^ 63" "sup_wf (e_fingerprint e) (w_sup w)" "tune e m w = Some (r, w')"
  shows "sup_wf (e_fingerprint e) (w_sup w')"
proof -
  obtain w1 where w1: "w' = tune_end w1" "ends_well e m 536 (tune_start e m w) r w1"
    using tune_ends [OF assms(1), of e w] assms(3) by auto
  have start: "sup_wf (e_fingerprint e) (w_sup (tune_start e m w))"
    using assms(2)
    by (rule sup_wf_cong) (simp_all add: tune_start_def start_progress_def evictAllResidentInstances_def Let_def)
  have "sup_wf (e_fingerprint e) (w_sup w1)"
  proof (cases r)
    case (Inl err)
    with w1(2) show ?thesis by (intro sup_wf_cong [OF start]) (auto simp: ends_well_def quiet_def same_sup_def)
  next
    case (Inr n)
    with w1(2) obtain w2 w3 cfg ctx where w: "quiet e 536 (tune_start e m w) w2" "launchConfig ctx e m cfg w2 = (Inr n, w3)"
      "w1 = close_fallback ctx (record_entry e m (requested_ctx m) cfg n w3)"
      by (auto simp: ends_well_def)
    show ?thesis
      using w launchConfig_keeps [OF w(2)]
      by (intro sup_wf_cong [OF start])
         (auto simp: quiet_def same_sup_def close_fallback_def record_entry_def entry_of_def Let_def split: if_splits)
  qed
  then show ?thesis unfolding w1(1) by (rule sup_wf_cong) (simp_all add: start_progress_def)
qed

lemma launchInstance_wf:
  assumes "max_offload m \<noteq> 2 ^ 63" "sup_wf (e_fingerprint e) (w_sup w)" "launchInstance e m w = Some (r, w')"
  shows "sup_wf (e_fingerprint e) (w_sup w')"
  using assms(3,2) tune_wf [OF assms(1,2)] tune_wf [OF assms(1) drop_entry_wf [OF assms(2)]]
  unfolding launchInstance_def
  by (auto split: pin_result.splits option.splits if_splits prod.splits dest!: launchConfig_keeps)

lemma reset_wf:
  assumes "sup_wf (e_fingerprint e) (w_sup w)" "\<And>i v. lives v (evicted i v)"
  shows "sup_wf (e_fingerprint e) (w_sup (snd (handleV1TuningReset e stat evicted removed query b w)))"
proof (cases "reset_ref query b = []")
  case True
  show ?thesis
    by (rule sup_wf_cong [OF assms(1)])
       (simp_all add: True handleV1TuningReset_def evictAllResidentInstances_def Let_def)
next
  case False
  then show ?thesis
    using drop_entry_wf [OF assms(1)] drop_entry_wf [OF lives_wf [OF assms(1) assms(2)]]
    by (simp add: handleV1TuningReset_def Let_def split: sum.split)
qed

lemma serve_step_wf: "serve_step fp w w' \<Longrightarrow> sup_wf fp (w_sup w) \<Longrightarrow> sup_wf fp (w_sup w')"
proof (induction rule: serve_step.induct)
  case (launches e m w r w')
  then show ?case using launchInstance_wf by blast
next
  case (rescans ovf fs ids w err orphaned s')
  have "registry_ok (snd (install_models (discoverModels ovf fs d) ids' s))" for d ids' s
    using rescanned.registry_axioms by (simp only: registry_iff)
  then have "registry_ok s'" "settings_ok fp s'"
    using rescans by (auto simp: Rescan_def install_models_def sup_wf_def settings_ok_def Let_def split: if_splits)
  then show ?case by (simp add: sup_wf_def)
next
  case (sets_ttl w stat now modelRef d)
  then show ?case
    by (rule sup_wf_cong) (auto simp: SetModelTTL_def Let_def split: sum.splits option.splits)
next
  case (resets e evicted w stat removed query b)
  then show ?case using reset_wf by blast
next
  case (instances_live w w')
  then show ?case using lives_wf by blast
next
  case (closes w)
  then show ?case by (rule sup_wf_cong) simp_all
qed

lemma serve_init_wf: "serve_init fp w \<Longrightarrow> sup_wf fp (w_sup w)"
proof -
  assume "serve_init fp w"
  then obtain e ovf fs pd read_config files dirs opts files' where fp: "e_fingerprint e = fp"
    and new: "NewWithOpts e (discoverModels ovf fs) pd read_config files dirs opts = Inr (w_sup w, files')"
    unfolding serve_init_def by blast
  have "settings_ok fp (w_sup w)"
    using NewWithOpts_wf [OF new] fp by (simp add: settings_ok_def SlotsPerInstance_def)
  then show ?thesis using NewWithOpts_registry [OF new] by (simp add: sup_wf_def)
qed

interpretation serving: step_invariant "serve_init fp" "serve_step fp" "\<lambda>w. sup_wf fp (w_sup w)" for fp
  by unfold_locales (use serve_init_wf serve_step_wf in blast)+

section \<open>Properties\<close>

text \<open>
  C6. Whatever is done with a Supervisor, in any order, it stays well formed: the registry holds
  exactly the listed Models, each under its ID, in strict order of IDs and with the digest of its
  file; every Tuning entry is of the present hardware; the Slot counts of all Models are positive
  and no Pin is incomplete. So launching any Model returns, without dereferencing a nil pointer
  (for every block count but \<open>2^63\<close>), and every Model of the registry is found under its ID.
\<close>

theorem supervisor_well_formed:
  assumes "serve_init fp w\<^sub>0" "(serve_step fp)\<^sup>*\<^sup>* w\<^sub>0 w"
  shows "(\<forall>i m. s_models (w_sup w) i = Some m \<longleftrightarrow> m \<in> set (s_modelsList (w_sup w)) \<and> m_ID m = i) \<and>
    sorted_wrt (<) (map m_ID (s_modelsList (w_sup w))) \<and>
    (\<forall>m \<in> set (s_modelsList (w_sup w)). m_Digest m = computeDigest m \<and>
       resolveModel stat (w_sup w) (m_ID m) = Inr (refresh stat m)) \<and>
    (\<forall>i entry. s_tuned (w_sup w) i = Some entry \<longrightarrow> te_Fingerprint entry = fp) \<and>
    (\<forall>m. 0 < resolveSlots (s_config (w_sup w)) (s_slotsPerInstance (w_sup w)) m) \<and>
    (\<forall>e m. max_offload m \<noteq> 2 ^ 63 \<longrightarrow> (\<exists>r w'. launchInstance e m w = Some (Returns r, w')))"
proof -
  have wf: "sup_wf fp (w_sup w)" using serving.inv_reachable [OF assms] .
  then have r: "registry (w_sup w)" by (simp add: sup_wf_def registry_iff)
  have "\<exists>r w'. launchInstance e m w = Some (Returns r, w')" if "max_offload m \<noteq> 2 ^ 63" for e m
  proof -
    have "resolvePin (s_config (w_sup w)) m \<noteq> PinNil" using wf by (simp add: sup_wf_def settings_ok_def)
    then show ?thesis
      using tune_ends [OF that, of e w] tune_ends [OF that, of e "drop_entry e (m_ID m) w"]
      unfolding launchInstance_def by (auto split: pin_result.splits option.splits prod.splits)
  qed
  moreover have "m_Digest m = computeDigest m" if "m \<in> set (s_modelsList (w_sup w))" for m
    using registry.wf [OF r that] by (simp add: model_wf_def)
  ultimately show ?thesis
    using wf registry.resolve_id [OF r] by (auto simp: sup_wf_def settings_ok_def registry_ok_def)
qed

theorem supervisor_well_formed_witness:
  "\<exists>w. serve_init ''gpu0'' w \<and> (\<exists>r w'. launchInstance sample_machine sample_model w = Some (Returns r, w'))"
proof -
  obtain s f where s: "NewWithOpts sample_machine (discoverModels 0 sample_fs) sample_pd (\<lambda>_. Parsed sample_entries)
     Map.empty [''d''] [WithConfigFile ''c.json'', WithSlotsPerInstance (-3)] = Inr (s, f)"
    using sample_start by blast
  let ?w = "sample_world\<lparr>w_sup := s\<rparr>"
  have "e_fingerprint sample_machine = ''gpu0''" by (simp add: sample_machine_def)
  then have init: "serve_init ''gpu0'' ?w" unfolding serve_init_def using s by fastforce
  have "max_offload sample_model \<noteq> 2 ^ 63" by (simp add: sample_ctx)
  with supervisor_well_formed [OF init rtranclp.rtrancl_refl] have
    "\<exists>r w'. launchInstance sample_machine sample_model ?w = Some (Returns r, w')" by blast
  with init show ?thesis by blast
qed

end
